theory Spec2Isabelle
  imports Complex_Main
begin

section \<open>JavaScript values and objects\<close>

text \<open>
  Tool-call arguments, booking drafts and stored bookings are plain JSON-like objects
  (\<^verbatim>\<open>call.args as any\<close>, \<^verbatim>\<open>BookingDetails\<close> with every field optional). An object is
  a finite map from property names to values; reading a property that is absent gives
  \<^verbatim>\<open>undefined\<close>. The values are the primitive ones, on which \<^verbatim>\<open>===\<close> is equality.
  Numbers that the modelled code computes with are integers (millisecond time stamps,
  nights, rates), so \<open>JNum\<close> carries an \<open>int\<close>.
\<close>

datatype jsval = JStr string | JNum int | JBool bool | JNull | JUndefined

type_synonym jsobj = "string \<Rightarrow> jsval option"

definition js_get :: "jsobj \<Rightarrow> string \<Rightarrow> jsval" where
  "js_get obj k = (case obj k of None \<Rightarrow> JUndefined | Some v \<Rightarrow> v)"

section \<open>Pricing: \<^verbatim>\<open>ROOM_RATES\<close> and \<^verbatim>\<open>calculateStayCost\<close> (App.tsx, lines 9-39)\<close>

text \<open>
  \<^verbatim>\<open>Object.keys\<close> of an object literal with string keys lists them in the order in
  which they are written, so the rate table is an association list.
\<close>

definition ROOM_RATES :: "(string \<times> int) list" where
  "ROOM_RATES =
     [(''standard'', 150), (''double'', 180), (''deluxe'', 250),
      (''family'', 300), (''suite'', 450), (''presidential'', 1200)]"

definition Object_keys :: "(string \<times> int) list \<Rightarrow> string list" where
  "Object_keys table = map fst table"

text \<open>
  \<^verbatim>\<open>ROOM_RATES[key]\<close>. The key always comes from \<open>Object_keys ROOM_RATES\<close> or is
  \<^verbatim>\<open>'standard'\<close>, so the lookup never misses (lemma \<open>rate_key_in_table\<close> below); the
  value written for a miss is never used.
\<close>

definition rate_lookup :: "(string \<times> int) list \<Rightarrow> string \<Rightarrow> int" where
  "rate_lookup table key = (case map_of table key of Some r \<Rightarrow> r | None \<Rightarrow> 0)"

text \<open>
  \<^verbatim>\<open>String.prototype.toLowerCase\<close> on the Latin letters; every other character is
  left as it is. Strings are byte strings here, and the six keys of the rate table are
  lower-case Latin letters only.
\<close>

definition toLowerCase_char :: "char \<Rightarrow> char" where
  "toLowerCase_char c =
     (case map_of (zip ''ABCDEFGHIJKLMNOPQRSTUVWXYZ'' ''abcdefghijklmnopqrstuvwxyz'') c of
        Some l \<Rightarrow> l
      | None \<Rightarrow> c)"

definition toLowerCase :: "string \<Rightarrow> string" where
  "toLowerCase s = map toLowerCase_char s"

fun startsWith :: "string \<Rightarrow> string \<Rightarrow> bool" where
  "startsWith s [] = True"
| "startsWith [] (y # ys) = False"
| "startsWith (x # xs) (y # ys) = (x = y \<and> startsWith xs ys)"

text \<open>\<^verbatim>\<open>s.includes(r)\<close>: \<open>r\<close> occurs in \<open>s\<close> as a contiguous substring.\<close>

fun String_includes :: "string \<Rightarrow> string \<Rightarrow> bool" where
  "String_includes [] r = (r = [])"
| "String_includes (x # xs) r = (startsWith (x # xs) r \<or> String_includes xs r)"

record financials =
  nights :: int
  rate :: int
  total :: int

text \<open>
  \<^verbatim>\<open>nights || 1\<close>: a number is falsy exactly when it is zero (the value is never NaN
  here, both dates being valid).
\<close>

definition or_one :: "int \<Rightarrow> int" where
  "or_one n = (if n = 0 then 1 else n)"

text \<open>
  The first parameter stands for \<^verbatim>\<open>new Date(v).getTime()\<close>: the time value in
  milliseconds, or \<open>None\<close> for an invalid date (NaN). \<^verbatim>\<open>Date\<close> is the JavaScript
  runtime's, not this repository's, so it is a parameter. The arguments are runtime
  values: the handlers pass \<^verbatim>\<open>args.check_in_date\<close> and so on of an untyped object, so
  an argument can be missing (\<open>JUndefined\<close>) or not a string. \<^verbatim>\<open>roomType.toLowerCase()\<close>
  throws a \<^verbatim>\<open>TypeError\<close> on anything but a string, and the surrounding
  \<^verbatim>\<open>try/catch\<close> turns that into \<^verbatim>\<open>null\<close>. The result \<open>None\<close> is \<^verbatim>\<open>null\<close>.
  Time values are whole milliseconds and the model computes with them exactly. So does
  the code as long as the two dates are less than \<open>2^53\<close> milliseconds apart: the
  difference is then exact, and the rounding of the quotient never reaches the next
  whole number. Beyond that the code's doubles round and the number of nights can differ
  from the model's; what is proved of the nights and the total carries that bound.
\<close>

definition calculateStayCost ::
  "(jsval \<Rightarrow> int option) \<Rightarrow> jsval \<Rightarrow> jsval \<Rightarrow> jsval \<Rightarrow> financials option" where
  "calculateStayCost getTime checkIn checkOut roomType =
     (case getTime checkIn of
        None \<Rightarrow> None
      | Some start \<Rightarrow>
         (case getTime checkOut of
            None \<Rightarrow> None
          | Some end' \<Rightarrow>
             (let diffTime = \<bar>end' - start\<bar>;
                  nights = \<lceil>real_of_int diffTime / (1000 * 60 * 60 * 24)\<rceil>
              in case roomType of
                   JStr rt \<Rightarrow>
                     (let key = (case find (\<lambda>r. String_includes (toLowerCase rt) r)
                                        (Object_keys ROOM_RATES) of
                                   Some k \<Rightarrow> k
                                 | None \<Rightarrow> ''standard'');
                          rate = rate_lookup ROOM_RATES key
                      in Some \<lparr>nights = or_one nights, rate = rate,
                                total = or_one nights * rate\<rparr>)
                 | _ \<Rightarrow> None)))"

section \<open>The booking store: \<^verbatim>\<open>MockDatabase\<close> (App.tsx, lines 41-79)\<close>

text \<open>
  The store is the JSON array under the \<^verbatim>\<open>localStorage\<close> key \<^verbatim>\<open>omni_bookings\<close>; each
  function parses it, works on the array and writes it back. The model keeps the parsed
  array. \<^verbatim>\<open>crypto.randomUUID()\<close> and \<^verbatim>\<open>new Date().toISOString()\<close> are inputs.
\<close>

text \<open>
  \<^verbatim>\<open>JSON.stringify\<close> leaves out every property whose value is \<^verbatim>\<open>undefined\<close>, so
  what is read back from the store has no such property.
\<close>

definition JSON_roundtrip :: "jsobj \<Rightarrow> jsobj" where
  "JSON_roundtrip obj = (\<lambda>k. case obj k of Some JUndefined \<Rightarrow> None | v \<Rightarrow> v)"

definition saveBooking :: "string \<Rightarrow> string \<Rightarrow> jsobj \<Rightarrow> jsobj list \<Rightarrow> jsobj \<times> jsobj list" where
  "saveBooking uuid now booking existing =
     (let newBooking = booking(''id'' \<mapsto> JStr uuid, ''created_at'' \<mapsto> JStr now,
                               ''status'' \<mapsto> JStr ''confirmed'')
      in (newBooking, JSON_roundtrip newBooking # existing))"

definition getBookings :: "jsval \<Rightarrow> jsobj list \<Rightarrow> jsobj list" where
  "getBookings userEmail all = filter (\<lambda>b. js_get b ''email'' = userEmail) all"

text \<open>
  \<^verbatim>\<open>cancelBooking\<close> maps over the array with a callback that sets the captured
  variable \<^verbatim>\<open>found\<close>; the loop below threads that variable through the traversal.
  The result is the returned flag and the array written back to the store.
\<close>

fun cancel_map :: "jsval \<Rightarrow> jsobj list \<Rightarrow> bool \<Rightarrow> jsobj list \<times> bool" where
  "cancel_map confirmationCode [] found = ([], found)"
| "cancel_map confirmationCode (b # bs) found =
     (if js_get b ''confirmation_code'' = confirmationCode
      then (let (updated, found') = cancel_map confirmationCode bs True
            in (b(''status'' \<mapsto> JStr ''cancelled'') # updated, found'))
      else (let (updated, found') = cancel_map confirmationCode bs found
            in (b # updated, found')))"

definition cancelBooking :: "jsval \<Rightarrow> jsobj list \<Rightarrow> bool \<times> jsobj list" where
  "cancelBooking confirmationCode all =
     (let (updated, found) = cancel_map confirmationCode all False in (found, updated))"

section \<open>Application state\<close>

datatype ConnectionState = DISCONNECTED | CONNECTING | CONNECTED | ERROR

datatype EmailStatus = idle | sending | sent

text \<open>
  An \<^verbatim>\<open>AudioBufferSourceNode\<close> that has been started: the time passed to
  \<^verbatim>\<open>source.start\<close> and the duration of its buffer, in seconds of the output
  context's clock. Times are real numbers; the rounding of the device clock is not
  modelled.
\<close>

record source =
  startAt :: real
  duration :: real

text \<open>
  The payload of a tool response: an object, or the array that \<^verbatim>\<open>list_bookings\<close>
  returns. A call has an \<^verbatim>\<open>id\<close>, a \<^verbatim>\<open>name\<close> and its \<^verbatim>\<open>args\<close>, an object.
\<close>

datatype payload = PObj jsobj | PArr "jsobj list"

record FunctionCall =
  call_id :: string
  call_name :: string
  call_args :: jsobj

record FunctionResponse =
  resp_id :: string
  resp_name :: string
  resp_result :: payload

text \<open>
  What the handlers read of a \<^verbatim>\<open>LiveServerMessage\<close>:
  \<^verbatim>\<open>serverContent?.modelTurn?.parts[0]?.inlineData?.data\<close>,
  \<^verbatim>\<open>serverContent?.interrupted\<close> and \<^verbatim>\<open>toolCall.functionCalls\<close>.
\<close>

record LiveServerMessage =
  inlineData :: "string option"
  interrupted :: bool
  toolCall :: "FunctionCall list option"

text \<open>
  A session created by \<^verbatim>\<open>ai.live.connect\<close>, as the transport drives its callbacks:
  \<^verbatim>\<open>onopen\<close> fires at most once, and only while the session is still pending;
  after \<^verbatim>\<open>onerror\<close> the session no longer opens; \<^verbatim>\<open>onclose\<close> is its last
  callback.
\<close>

datatype session_status = Pending | Opened | Failed | Closed

text \<open>
  The state of the \<^verbatim>\<open>App\<close> component: its React state, its refs and the
  \<^verbatim>\<open>localStorage\<close> entry, followed by logs of the calls it makes on the outside
  world (\<^verbatim>\<open>source.stop()\<close>, \<^verbatim>\<open>session.sendToolResponse\<close>,
  \<^verbatim>\<open>session.sendRealtimeInput\<close>, \<^verbatim>\<open>MockDatabase.sendConfirmationEmail\<close>), the number
  of random and clock values drawn so far, and the sessions created so far.
  \<open>mediaStream\<close> is \<open>None\<close> for a null ref and \<open>Some en\<close> for a stream whose audio
  track has \<^verbatim>\<open>enabled = en\<close>. The transcript log and the toasts only feed the display
  and are left out.
\<close>

record app =
  connectionState :: ConnectionState
  isMuted :: bool
  isMutedRef :: bool
  audioLevel :: real
  currentBooking :: jsobj
  finalizedBooking :: "jsobj option"
  emailStatus :: EmailStatus
  refreshTrigger :: nat
  omni_bookings :: "jsobj list"
  nextStartTime :: real
  scheduledSources :: "source list"
  outputAudioContext :: bool
  inputAudioContext :: bool
  mediaStream :: "bool option"
  sessionRef :: bool
  stopped :: "source list"
  toolResponses :: "FunctionResponse list list"
  realtimeInput :: "string list"
  confirmationEmails :: "(string \<times> jsobj) list"
  draws :: nat
  sessions :: "session_status list"

text \<open>
  What the component takes from outside: \<^verbatim>\<open>Date\<close>, \<^verbatim>\<open>Math.random\<close> (the \<open>n\<close>-th
  value drawn, a double in \<open>[0, 1)\<close>), the product of two doubles as the machine rounds
  it, \<^verbatim>\<open>Number.prototype.toString(36)\<close> on a double,
  \<^verbatim>\<open>crypto.randomUUID\<close>, the wall clock, the signed-in user's email, and the functions
  of \<^verbatim>\<open>utils/audioUtils\<close>, which is not among the source files:
  \<^verbatim>\<open>decodeAudioData(base64ToArrayBuffer(data), ...)\<close> gives the duration of the decoded
  buffer or \<open>None\<close> when it rejects, \<^verbatim>\<open>createPcmBlob\<close> encodes a frame.
\<close>

record env =
  Date_getTime :: "jsval \<Rightarrow> int option"
  Math_random :: "nat \<Rightarrow> real"
  double_times :: "real \<Rightarrow> real \<Rightarrow> real"
  toString36 :: "real \<Rightarrow> string"
  randomUUID :: "nat \<Rightarrow> string"
  toISOString :: "nat \<Rightarrow> string"
  user_email :: string
  decodeAudioData :: "string \<Rightarrow> real option"
  createPcmBlob :: "real list \<Rightarrow> string"

definition initial_app :: app where
  "initial_app =
     \<lparr>connectionState = DISCONNECTED, isMuted = False, isMutedRef = False, audioLevel = 0,
      currentBooking = Map.empty, finalizedBooking = None, emailStatus = idle,
      refreshTrigger = 0, omni_bookings = [], nextStartTime = 0, scheduledSources = [],
      outputAudioContext = False, inputAudioContext = False, mediaStream = None,
      sessionRef = False, stopped = [], toolResponses = [], realtimeInput = [],
      confirmationEmails = [], draws = 0, sessions = []\<rparr>"

section \<open>Tool dispatch, richer variant (App.tsx, lines 557-614)\<close>

text \<open>\<^verbatim>\<open>x || 0\<close> on a number.\<close>

definition or_zero :: "int \<Rightarrow> int" where
  "or_zero n = (if n = 0 then 0 else n)"

definition digit_char :: "nat \<Rightarrow> char" where
  "digit_char d = ''0123456789'' ! d"

function Number_toString :: "nat \<Rightarrow> string" where
  "Number_toString n =
     (if n < 10 then [digit_char n] else Number_toString (n div 10) @ [digit_char (n mod 10)])"
  by pat_completeness auto
termination
  by (relation "measure id") auto

declare Number_toString.simps [simp del]

definition padStart :: "nat \<Rightarrow> char \<Rightarrow> string \<Rightarrow> string" where
  "padStart n c str = replicate (n - length str) c @ str"

definition check_availability_rich :: "env \<Rightarrow> jsobj \<Rightarrow> app \<Rightarrow> payload \<times> app" where
  "check_availability_rich e args s =
     (let financials = calculateStayCost (Date_getTime e) (js_get args ''check_in_date'')
                         (js_get args ''check_out_date'') (js_get args ''room_type'');
          enrichedDetails = args
            (''price_per_night'' \<mapsto> JNum (case financials of None \<Rightarrow> 0 | Some f \<Rightarrow> or_zero (rate f)),
             ''total_cost'' \<mapsto> JNum (case financials of None \<Rightarrow> 0 | Some f \<Rightarrow> or_zero (total f)),
             ''total_nights'' \<mapsto> JNum (case financials of None \<Rightarrow> 0 | Some f \<Rightarrow> or_zero (nights f)));
          s' = s\<lparr>currentBooking := currentBooking s ++ enrichedDetails\<rparr>;
          result = (case financials of
                      Some f \<Rightarrow> [''status'' \<mapsto> JStr ''available'', ''nights'' \<mapsto> JNum (nights f),
                                 ''rate'' \<mapsto> JNum (rate f), ''total'' \<mapsto> JNum (total f),
                                 ''currency'' \<mapsto> JStr ''USD'']
                    | None \<Rightarrow> [''status'' \<mapsto> JStr ''unavailable'',
                               ''message'' \<mapsto> JStr ''Invalid dates or room type.''])
      in (PObj result, s'))"

definition finalize_booking_rich :: "env \<Rightarrow> jsobj \<Rightarrow> app \<Rightarrow> payload \<times> app" where
  "finalize_booking_rich e bookingData s =
     (let confCode = ''OMNI-'' @ padStart 4 (CHR ''0'')
                       (Number_toString
                          (nat \<lfloor>double_times e (Math_random e (draws s)) 10000\<rfloor>));
          completeBooking = bookingData(''email'' \<mapsto> JStr (user_email e),
                                         ''confirmation_code'' \<mapsto> JStr confCode);
          (newBooking, store) = saveBooking (randomUUID e (draws s)) (toISOString e (draws s))
                                  completeBooking (omni_bookings s)
      in (PObj [''confirmation_code'' \<mapsto> JStr confCode],
          s\<lparr>currentBooking := completeBooking,
            finalizedBooking := Some completeBooking,
            omni_bookings := store,
            refreshTrigger := refreshTrigger s + 1,
            emailStatus := sending,
            confirmationEmails := confirmationEmails s @ [(user_email e, completeBooking)],
            draws := draws s + 1\<rparr>))"

definition list_bookings_rich :: "env \<Rightarrow> app \<Rightarrow> payload \<times> app" where
  "list_bookings_rich e s =
     (let activeBookings = filter (\<lambda>b. js_get b ''status'' = JStr ''confirmed'')
                             (getBookings (JStr (user_email e)) (omni_bookings s))
      in (PArr activeBookings, s))"

definition cancel_booking_rich :: "jsobj \<Rightarrow> app \<Rightarrow> payload \<times> app" where
  "cancel_booking_rich args s =
     (let confirmation_code = js_get args ''confirmation_code'';
          (success, updated) = cancelBooking confirmation_code (omni_bookings s);
          s' = s\<lparr>omni_bookings := updated\<rparr>
      in if success
         then (PObj [''status'' \<mapsto> JStr ''success'', ''message'' \<mapsto> JStr ''Booking cancelled''],
               s'\<lparr>refreshTrigger := refreshTrigger s' + 1\<rparr>)
         else (PObj [''status'' \<mapsto> JStr ''error'', ''message'' \<mapsto> JStr ''Booking not found''],
               s'))"

text \<open>
  One pass of the loop body: \<^verbatim>\<open>let result: any = {}\<close>, then the
  \<^verbatim>\<open>if / else if\<close> chain on \<^verbatim>\<open>call.name\<close>, which has no final \<^verbatim>\<open>else\<close>.
\<close>

definition handle_call_rich :: "env \<Rightarrow> FunctionCall \<Rightarrow> app \<Rightarrow> payload \<times> app" where
  "handle_call_rich e call s =
     (if call_name call = ''check_availability'' then check_availability_rich e (call_args call) s
      else if call_name call = ''finalize_booking'' then finalize_booking_rich e (call_args call) s
      else if call_name call = ''list_bookings'' then list_bookings_rich e s
      else if call_name call = ''cancel_booking'' then cancel_booking_rich (call_args call) s
      else (PObj Map.empty, s))"

text \<open>
  \<^verbatim>\<open>for (const call of message.toolCall.functionCalls)\<close> with the array
  \<^verbatim>\<open>responses\<close> that each pass pushes to.
\<close>

fun dispatch_rich ::
  "env \<Rightarrow> FunctionCall list \<Rightarrow> FunctionResponse list \<Rightarrow> app \<Rightarrow> FunctionResponse list \<times> app" where
  "dispatch_rich e [] responses s = (responses, s)"
| "dispatch_rich e (call # calls) responses s =
     (let (result, s') = handle_call_rich e call s
      in dispatch_rich e calls
           (responses @ [\<lparr>resp_id = call_id call, resp_name = call_name call,
                          resp_result = result\<rparr>]) s')"

text \<open>The whole \<^verbatim>\<open>if (message.toolCall)\<close> block: the loop, then one \<^verbatim>\<open>sendToolResponse\<close>.\<close>

definition toolCall_rich :: "env \<Rightarrow> FunctionCall list \<Rightarrow> app \<Rightarrow> app" where
  "toolCall_rich e calls s =
     (let (responses, s') = dispatch_rich e calls [] s
      in s'\<lparr>toolResponses := toolResponses s' @ [responses]\<rparr>)"

section \<open>Tool dispatch, reduced variant (App.tsx, lines 1152-1179)\<close>

definition check_availability_reduced :: "env \<Rightarrow> jsobj \<Rightarrow> app \<Rightarrow> payload \<times> app" where
  "check_availability_reduced e args s =
     (let financials = calculateStayCost (Date_getTime e) (js_get args ''check_in_date'')
                         (js_get args ''check_out_date'') (js_get args ''room_type'');
          s' = s\<lparr>currentBooking :=
                   args(''total_cost'' \<mapsto> (case financials of None \<Rightarrow> JUndefined
                                                | Some f \<Rightarrow> JNum (total f)))\<rparr>;
          result = (case financials of
                      Some f \<Rightarrow> [''status'' \<mapsto> JStr ''available'', ''nights'' \<mapsto> JNum (nights f),
                                 ''rate'' \<mapsto> JNum (rate f), ''total'' \<mapsto> JNum (total f)]
                    | None \<Rightarrow> [''status'' \<mapsto> JStr ''available''])
      in (PObj result, s'))"

text \<open>
  \<^verbatim>\<open>String.prototype.toUpperCase\<close> on the Latin letters; the digits and the point of a
  base-36 rendering stay as they are.
\<close>

definition toUpperCase_char :: "char \<Rightarrow> char" where
  "toUpperCase_char c =
     (case map_of (zip ''abcdefghijklmnopqrstuvwxyz'' ''ABCDEFGHIJKLMNOPQRSTUVWXYZ'') c of
        Some u \<Rightarrow> u
      | None \<Rightarrow> c)"

definition toUpperCase :: "string \<Rightarrow> string" where
  "toUpperCase str = map toUpperCase_char str"

definition finalize_booking_reduced :: "env \<Rightarrow> jsobj \<Rightarrow> app \<Rightarrow> payload \<times> app" where
  "finalize_booking_reduced e args s =
     (let code = ''OMNI-'' @ toUpperCase (drop 7 (toString36 e (Math_random e (draws s))));
          booking = args(''email'' \<mapsto> JStr (user_email e), ''confirmation_code'' \<mapsto> JStr code);
          (newBooking, store) = saveBooking (randomUUID e (draws s)) (toISOString e (draws s))
                                  booking (omni_bookings s)
      in (PObj [''status'' \<mapsto> JStr ''success'', ''confirmation_code'' \<mapsto> JStr code],
          s\<lparr>finalizedBooking := Some booking, omni_bookings := store,
            draws := draws s + 1\<rparr>))"

definition handle_call_reduced :: "env \<Rightarrow> FunctionCall \<Rightarrow> app \<Rightarrow> payload \<times> app" where
  "handle_call_reduced e call s =
     (if call_name call = ''check_availability''
      then check_availability_reduced e (call_args call) s
      else if call_name call = ''finalize_booking''
      then finalize_booking_reduced e (call_args call) s
      else (PObj Map.empty, s))"

text \<open>Here every pass of the loop sends its own response.\<close>

fun toolCall_reduced :: "env \<Rightarrow> FunctionCall list \<Rightarrow> app \<Rightarrow> app" where
  "toolCall_reduced e [] s = s"
| "toolCall_reduced e (call # calls) s =
     (let (result, s') = handle_call_reduced e call s
      in toolCall_reduced e calls
           (s'\<lparr>toolResponses := toolResponses s' @
                   [[\<lparr>resp_id = call_id call, resp_name = call_name call,
                      resp_result = result\<rparr>]]\<rparr>))"

section \<open>Audio playback (App.tsx, lines 543-555 and 1123-1149)\<close>

text \<open>
  Scheduling one decoded chunk, the same statements in both variants:
  \<^verbatim>\<open>nextStartTime = Math.max(nextStartTime, ctx.currentTime)\<close>,
  \<^verbatim>\<open>source.start(nextStartTime)\<close>, \<^verbatim>\<open>sources.add(source)\<close>,
  \<^verbatim>\<open>nextStartTime += audioBuffer.duration\<close>. \<open>now\<close> is \<^verbatim>\<open>ctx.currentTime\<close> and
  \<open>dur\<close> the chunk's duration.
\<close>

definition enqueue :: "real \<Rightarrow> real \<Rightarrow> app \<Rightarrow> app" where
  "enqueue now dur s =
     (let start = max (nextStartTime s) now
      in s\<lparr>scheduledSources := scheduledSources s @ [\<lparr>startAt = start, duration = dur\<rparr>],
           nextStartTime := start + dur\<rparr>)"

text \<open>\<^verbatim>\<open>source.onended = () => sources.delete(source)\<close>.\<close>

definition onended :: "source \<Rightarrow> app \<Rightarrow> app" where
  "onended src s = s\<lparr>scheduledSources := remove1 src (scheduledSources s)\<rparr>"

text \<open>
  The reduced variant's answer to \<^verbatim>\<open>message.serverContent?.interrupted\<close>: stop every
  source of the set, clear the set, reset the clock.
\<close>

definition interrupt :: "app \<Rightarrow> app" where
  "interrupt s =
     s\<lparr>stopped := stopped s @ scheduledSources s, scheduledSources := [],
       nextStartTime := 0\<rparr>"

text \<open>
  The audio part of the richer \<^verbatim>\<open>onmessage\<close>. A non-empty string is truthy. The
  flag returned with the state tells whether the handler goes on: it is false when
  \<^verbatim>\<open>await decodeAudioData(...)\<close> rejects, which ends the handler there.
\<close>

definition audio_rich :: "env \<Rightarrow> real \<Rightarrow> LiveServerMessage \<Rightarrow> app \<Rightarrow> app \<times> bool" where
  "audio_rich e now message s =
     (case inlineData message of
        None \<Rightarrow> (s, True)
      | Some base64Audio \<Rightarrow>
          if base64Audio \<noteq> [] \<and> outputAudioContext s
          then (case decodeAudioData e base64Audio of
                  None \<Rightarrow> (s, False)
                | Some dur \<Rightarrow> (enqueue now dur s, True))
          else (s, True))"

text \<open>
  The richer \<^verbatim>\<open>onmessage\<close>: the audio part, then the tool calls. It has no branch
  for \<^verbatim>\<open>interrupted\<close>. This is one call of the handler followed from its start to its
  end. The handler is \<^verbatim>\<open>async\<close> and waits for the decoding before it goes on, and
  nothing keeps the handler of a later message from running in between; that case is
  \<open>onmessage_rich_resume\<close> below.
\<close>

definition onmessage_rich :: "env \<Rightarrow> real \<Rightarrow> LiveServerMessage \<Rightarrow> app \<Rightarrow> app" where
  "onmessage_rich e now message s =
     (let (s1, goes_on) = audio_rich e now message s
      in if \<not> goes_on then s1
         else (case toolCall message of
                 None \<Rightarrow> s1
               | Some calls \<Rightarrow> toolCall_rich e calls s1))"

text \<open>
  The reduced \<^verbatim>\<open>onmessage\<close>: the interruption first, then the audio (creating the
  output context when there is none), then the tool calls.
\<close>

definition audio_reduced :: "env \<Rightarrow> real \<Rightarrow> LiveServerMessage \<Rightarrow> app \<Rightarrow> app \<times> bool" where
  "audio_reduced e now message s =
     (case inlineData message of
        None \<Rightarrow> (s, True)
      | Some base64Audio \<Rightarrow>
          if base64Audio \<noteq> []
          then (let s' = s\<lparr>outputAudioContext := True\<rparr>
                in case decodeAudioData e base64Audio of
                     None \<Rightarrow> (s', False)
                   | Some dur \<Rightarrow> (enqueue now dur s', True))
          else (s, True))"

definition onmessage_reduced :: "env \<Rightarrow> real \<Rightarrow> LiveServerMessage \<Rightarrow> app \<Rightarrow> app" where
  "onmessage_reduced e now message s =
     (let s1 = (if interrupted message then interrupt s else s);
          (s2, goes_on) = audio_reduced e now message s1
      in if \<not> goes_on then s2
         else (case toolCall message of
                 None \<Rightarrow> s2
               | Some calls \<Rightarrow> toolCall_reduced e calls s2))"

text \<open>
  What is left of the richer handler once the decoding of the message's audio has
  settled: the statements after \<^verbatim>\<open>await decodeAudioData(...)\<close>, on the state as it is
  by then. Before that point the handler has changed nothing.
\<close>

definition onmessage_rich_resume :: "env \<Rightarrow> real \<Rightarrow> LiveServerMessage \<Rightarrow> app \<Rightarrow> app" where
  "onmessage_rich_resume e now message s =
     (case inlineData message of
        None \<Rightarrow> s
      | Some base64Audio \<Rightarrow>
         (case decodeAudioData e base64Audio of
            None \<Rightarrow> s
          | Some dur \<Rightarrow>
             (let s1 = enqueue now dur s
              in case toolCall message of
                   None \<Rightarrow> s1
                 | Some calls \<Rightarrow> toolCall_rich e calls s1)))"

text \<open>Chunks enqueued one after the other, each with the clock read at its arrival.\<close>

fun enqueue_all :: "(real \<times> real) list \<Rightarrow> app \<Rightarrow> app" where
  "enqueue_all [] s = s"
| "enqueue_all ((now, dur) # rest) s = enqueue_all rest (enqueue now dur s)"

section \<open>Capture and mute (App.tsx, lines 467-508 and 1098-1113)\<close>

text \<open>\<^verbatim>\<open>Math.sqrt(sum / inputData.length)\<close> with \<^verbatim>\<open>sum\<close> the sum of the squares.\<close>

definition rms :: "real list \<Rightarrow> real" where
  "rms inputData = sqrt (sum_list (map (\<lambda>x. x * x) inputData) / real (length inputData))"

text \<open>
  The richer \<^verbatim>\<open>onaudioprocess\<close>: the level is smoothed, with the frame's energy
  counted only while the stream has an enabled audio track; the frame is then encoded
  and sent unless the input context is closed. \<open>inputAudioContext\<close> is false for a
  closed context.
\<close>

definition onaudioprocess_rich :: "env \<Rightarrow> real list \<Rightarrow> app \<Rightarrow> app" where
  "onaudioprocess_rich e inputData s =
     (let s1 = s\<lparr>audioLevel := audioLevel s * 0.8 +
                    (if mediaStream s = Some True then rms inputData else 0) * 2.0\<rparr>
      in if \<not> inputAudioContext s then s1
         else s1\<lparr>realtimeInput := realtimeInput s1 @ [createPcmBlob e inputData]\<rparr>)"

definition toggleMute :: "app \<Rightarrow> app" where
  "toggleMute s =
     (case mediaStream s of
        None \<Rightarrow> s
      | Some en \<Rightarrow> (let newState = \<not> isMuted s
                   in s\<lparr>mediaStream := Some (\<not> newState), isMuted := newState\<rparr>))"

text \<open>
  The reduced \<^verbatim>\<open>onaudioprocess\<close>: the level is the frame's energy as it is, and the
  frame is sent only when \<^verbatim>\<open>isMutedRef.current\<close> is false. The mute button sets
  \<^verbatim>\<open>isMuted\<close>, and the effect copies it into the ref.
\<close>

definition onaudioprocess_reduced :: "env \<Rightarrow> real list \<Rightarrow> app \<Rightarrow> app" where
  "onaudioprocess_reduced e inputData s =
     (let s1 = s\<lparr>audioLevel := rms inputData\<rparr>
      in if \<not> isMutedRef s
         then s1\<lparr>realtimeInput := realtimeInput s1 @ [createPcmBlob e inputData]\<rparr>
         else s1)"

definition setIsMuted_reduced :: "app \<Rightarrow> app" where
  "setIsMuted_reduced s = s\<lparr>isMuted := \<not> isMuted s, isMutedRef := \<not> isMuted s\<rparr>"

section \<open>The connection state machine, richer variant (App.tsx, lines 437-448, 513-646)\<close>

definition stopAudio :: "app \<Rightarrow> app" where
  "stopAudio s =
     s\<lparr>inputAudioContext := False, outputAudioContext := False, mediaStream := None,
       stopped := stopped s @ scheduledSources s, scheduledSources := [],
       nextStartTime := 0, audioLevel := 0, isMuted := False\<rparr>"

text \<open>
  \<^verbatim>\<open>connectToGemini\<close>. The flags say whether a user is signed in, whether
  \<^verbatim>\<open>process.env.API_KEY\<close> is set, and whether the body of the \<^verbatim>\<open>try\<close> throws
  before the session exists. \<^verbatim>\<open>ai.live.connect\<close> creates a session, pending until
  its \<^verbatim>\<open>onopen\<close>.
\<close>

definition connectToGemini :: "bool \<Rightarrow> bool \<Rightarrow> bool \<Rightarrow> app \<Rightarrow> app" where
  "connectToGemini has_user has_key throws s =
     (if \<not> has_user then s
      else if \<not> has_key then s
      else (let s1 = s\<lparr>connectionState := CONNECTING, finalizedBooking := None,
                        currentBooking := Map.empty, emailStatus := idle\<rparr>
            in if throws then stopAudio (s1\<lparr>connectionState := ERROR\<rparr>)
               else s1\<lparr>sessions := sessions s1 @ [Pending], sessionRef := True\<rparr>))"

text \<open>
  The callbacks of session \<open>i\<close>. \<^verbatim>\<open>onopen\<close> also calls \<^verbatim>\<open>startAudio\<close>, which
  ends later in one of the two ways below.
\<close>

definition onopen :: "nat \<Rightarrow> app \<Rightarrow> app" where
  "onopen i s = s\<lparr>connectionState := CONNECTED, sessions := (sessions s)[i := Opened]\<rparr>"

definition onclose :: "nat \<Rightarrow> app \<Rightarrow> app" where
  "onclose i s =
     stopAudio (s\<lparr>connectionState := DISCONNECTED, sessions := (sessions s)[i := Closed]\<rparr>)"

definition onerror :: "nat \<Rightarrow> app \<Rightarrow> app" where
  "onerror i s =
     stopAudio (s\<lparr>connectionState := ERROR, sessions := (sessions s)[i := Failed]\<rparr>)"

definition startAudio_done :: "app \<Rightarrow> app" where
  "startAudio_done s =
     s\<lparr>mediaStream := Some True, inputAudioContext := True, outputAudioContext := True\<rparr>"

definition startAudio_failed :: "app \<Rightarrow> app" where
  "startAudio_failed s = s\<lparr>connectionState := ERROR\<rparr>"

text \<open>\<^verbatim>\<open>endCall\<close> does not close the session.\<close>

definition endCall :: "app \<Rightarrow> app" where
  "endCall s =
     (if sessionRef s
      then (stopAudio s)\<lparr>connectionState := DISCONNECTED, sessionRef := False\<rparr>
      else s)"

datatype event =
    ClickConnect bool bool bool
  | ClickEndCall
  | ClickMute
  | RemoteOpen nat
  | RemoteClose nat
  | RemoteError nat
  | AudioReady
  | AudioInitFailed

fun step :: "app \<Rightarrow> event \<Rightarrow> app" where
  "step s (ClickConnect has_user has_key throws) = connectToGemini has_user has_key throws s"
| "step s ClickEndCall = endCall s"
| "step s ClickMute = toggleMute s"
| "step s (RemoteOpen i) = onopen i s"
| "step s (RemoteClose i) = onclose i s"
| "step s (RemoteError i) = onerror i s"
| "step s AudioReady = startAudio_done s"
| "step s AudioInitFailed = startAudio_failed s"

text \<open>
  When an event can happen. The page shows the connect button in the states
  \<open>DISCONNECTED\<close> and \<open>ERROR\<close> and the mute and end-call buttons otherwise
  (lines 744-757); the transport calls back as described at \<open>session_status\<close>.
\<close>

fun enabled :: "app \<Rightarrow> event \<Rightarrow> bool" where
  "enabled s (ClickConnect has_user has_key throws) =
     (connectionState s = DISCONNECTED \<or> connectionState s = ERROR)"
| "enabled s ClickEndCall = (connectionState s = CONNECTING \<or> connectionState s = CONNECTED)"
| "enabled s ClickMute = (connectionState s = CONNECTING \<or> connectionState s = CONNECTED)"
| "enabled s (RemoteOpen i) = (i < length (sessions s) \<and> sessions s ! i = Pending)"
| "enabled s (RemoteClose i) = (i < length (sessions s) \<and> sessions s ! i \<noteq> Closed)"
| "enabled s (RemoteError i) =
     (i < length (sessions s) \<and> (sessions s ! i = Pending \<or> sessions s ! i = Opened))"
| "enabled s AudioReady = True"
| "enabled s AudioInitFailed = True"

text \<open>
  The states an execution goes through: the state it starts in and the state after
  each event; \<open>None\<close> when an event of the list cannot happen where it stands.
\<close>

fun run :: "app \<Rightarrow> event list \<Rightarrow> app list option" where
  "run s [] = Some [s]"
| "run s (ev # evs) =
     (if enabled s ev
      then (case run (step s ev) evs of None \<Rightarrow> None | Some tr \<Rightarrow> Some (s # tr))
      else None)"

definition user_event :: "event \<Rightarrow> bool" where
  "user_event ev = (case ev of ClickConnect u k t \<Rightarrow> True | ClickEndCall \<Rightarrow> True
                             | ClickMute \<Rightarrow> True | _ \<Rightarrow> False)"

text \<open>Reading a property of a tool result; an array has none of the names read here.\<close>

definition result_prop :: "payload \<Rightarrow> string \<Rightarrow> jsval" where
  "result_prop p k = (case p of PObj obj \<Rightarrow> js_get obj k | PArr bs \<Rightarrow> JUndefined)"

text \<open>The \<^verbatim>\<open>id\<close> and \<^verbatim>\<open>name\<close> of each call of a batch, and of each response.\<close>

definition ids_of_calls :: "FunctionCall list \<Rightarrow> (string \<times> string) list" where
  "ids_of_calls calls = map (\<lambda>c. (call_id c, call_name c)) calls"

definition ids_of_responses :: "FunctionResponse list \<Rightarrow> (string \<times> string) list" where
  "ids_of_responses rs = map (\<lambda>r. (resp_id r, resp_name r)) rs"

section \<open>Values used in the examples\<close>

text \<open>
  \<^verbatim>\<open>new Date(v).getTime()\<close> on two ISO dates (midnight UTC) and on a string that is
  not a date; the examples use no other value. In the sample environment every draw of
  \<^verbatim>\<open>Math.random\<close> is one half, whose product with 10000 is exact and whose base-36
  rendering is \<^verbatim>\<open>0.i\<close>.
\<close>

definition Date_getTime_sample :: "jsval \<Rightarrow> int option" where
  "Date_getTime_sample v =
     (if v = JStr ''2024-06-01'' then Some 1717200000000
      else if v = JStr ''2024-06-05'' then Some 1717545600000
      else None)"

definition sample_env :: env where
  "sample_env =
     \<lparr>Date_getTime = Date_getTime_sample, Math_random = (\<lambda>n. 1 / 2),
      double_times = (\<lambda>x y. x * y), toString36 = (\<lambda>r. ''0.i''),
      randomUUID = (\<lambda>n. ''uuid''),
      toISOString = (\<lambda>n. ''2024-05-01T00:00:00.000Z''), user_email = ''ada@example.com'',
      decodeAudioData = (\<lambda>b. if b = ''bad'' then None else Some 1),
      createPcmBlob = (\<lambda>frame. ''pcm'')\<rparr>"

definition booking_a :: jsobj where
  "booking_a = [''email'' \<mapsto> JStr ''ada@example.com'', ''confirmation_code'' \<mapsto> JStr ''OMNI-0042'',
                ''status'' \<mapsto> JStr ''confirmed'', ''room_type'' \<mapsto> JStr ''suite'']"

definition booking_b :: jsobj where
  "booking_b = [''email'' \<mapsto> JStr ''bob@example.com'', ''confirmation_code'' \<mapsto> JStr ''OMNI-0042'',
                ''status'' \<mapsto> JStr ''confirmed'']"

definition booking_c :: jsobj where
  "booking_c = [''email'' \<mapsto> JStr ''ada@example.com'', ''confirmation_code'' \<mapsto> JStr ''OMNI-0007'',
                ''status'' \<mapsto> JStr ''confirmed'']"

definition sample_calls :: "FunctionCall list" where
  "sample_calls =
     [\<lparr>call_id = ''c1'', call_name = ''check_availability'',
       call_args = [''room_type'' \<mapsto> JStr ''suite'', ''check_in_date'' \<mapsto> JStr ''not-a-date'',
                    ''check_out_date'' \<mapsto> JStr ''2024-06-05'']\<rparr>,
      \<lparr>call_id = ''c2'', call_name = ''get_weather'', call_args = Map.empty\<rparr>,
      \<lparr>call_id = ''c3'', call_name = ''cancel_booking'',
       call_args = [''confirmation_code'' \<mapsto> JStr ''OMNI-0042'']\<rparr>]"

text \<open>
  A session that is connected with its audio started; a message that brings the three
  calls together with audio that does not decode; a message that brings audio that
  decodes together with one call, and a later one that brings another call.
\<close>

definition live_app :: app where
  "live_app = startAudio_done (onopen 0 (connectToGemini True True False initial_app))"

definition bad_audio_message :: LiveServerMessage where
  "bad_audio_message =
     \<lparr>inlineData = Some ''bad'', interrupted = False, toolCall = Some sample_calls\<rparr>"

definition first_message :: LiveServerMessage where
  "first_message =
     \<lparr>inlineData = Some ''pcm-chunk'', interrupted = False,
      toolCall = Some [\<lparr>call_id = ''m1'', call_name = ''list_bookings'', call_args = Map.empty\<rparr>]\<rparr>"

definition second_message :: LiveServerMessage where
  "second_message =
     \<lparr>inlineData = None, interrupted = False,
      toolCall = Some [\<lparr>call_id = ''m2'', call_name = ''list_bookings'', call_args = Map.empty\<rparr>]\<rparr>"

definition unpriceable_call :: FunctionCall where
  "unpriceable_call =
     \<lparr>call_id = ''c1'', call_name = ''check_availability'',
      call_args = [''room_type'' \<mapsto> JStr ''suite'', ''check_in_date'' \<mapsto> JStr ''not-a-date'',
                   ''check_out_date'' \<mapsto> JStr ''2024-06-05'']\<rparr>"

definition unknown_call :: FunctionCall where
  "unknown_call = \<lparr>call_id = ''c2'', call_name = ''get_weather'', call_args = Map.empty\<rparr>"

text \<open>
  The sources that a run of \<open>enqueue\<close> adds when the clock stands at \<open>t\<close>, and the
  clock after it.
\<close>

fun plan :: "real \<Rightarrow> (real \<times> real) list \<Rightarrow> source list" where
  "plan t [] = []"
| "plan t ((now, dur) # rest) =
     \<lparr>startAt = max t now, duration = dur\<rparr> # plan (max t now + dur) rest"

fun clock_after :: "real \<Rightarrow> (real \<times> real) list \<Rightarrow> real" where
  "clock_after t [] = t"
| "clock_after t ((now, dur) # rest) = clock_after (max t now + dur) rest"

definition timely_chunks :: "(real \<times> real) list" where
  "timely_chunks = [(0, 1), (1 / 2, 2), (3, 1)]"

definition late_chunks :: "(real \<times> real) list" where
  "late_chunks = [(0, 1), (5, 1)]"

text \<open>
  A session that is connected with its audio started, with one chunk of a second
  scheduled at time 0; a message that only signals an interruption; the same session
  after the mute button; and an execution.
\<close>

definition playing_app :: app where
  "playing_app = enqueue 0 1 (startAudio_done (onopen 0 (connectToGemini True True False initial_app)))"

definition interrupt_message :: LiveServerMessage where
  "interrupt_message = \<lparr>inlineData = None, interrupted = True, toolCall = None\<rparr>"

definition muted_app :: app where
  "muted_app = toggleMute (startAudio_done (onopen 0 (connectToGemini True True False initial_app)))"

definition stale_open_trace :: "event list" where
  "stale_open_trace =
     [ClickConnect True True False, ClickEndCall, ClickConnect True True False,
      RemoteError 1, RemoteOpen 0]"

text \<open>The key that \<^verbatim>\<open>calculateStayCost\<close> settles on for a room type.\<close>

definition room_key :: "string \<Rightarrow> string" where
  "room_key rt = (case find (\<lambda>r. String_includes (toLowerCase rt) r) (Object_keys ROOM_RATES) of
                    Some k \<Rightarrow> k | None \<Rightarrow> ''standard'')"

section \<open>Pricing: properties\<close>

lemma startsWith_iff: "startsWith s r \<longleftrightarrow> (\<exists>q. s = r @ q)"
  by (induction s r rule: startsWith.induct) auto

lemma String_includes_iff: "String_includes s r \<longleftrightarrow> (\<exists>p q. s = p @ r @ q)"
proof (induction s)
  case Nil
  then show ?case by auto
next
  case (Cons x xs)
  show ?case
  proof
    assume "String_includes (x # xs) r"
    then consider "startsWith (x # xs) r" | "String_includes xs r" by auto
    then show "\<exists>p q. x # xs = p @ r @ q"
    proof cases
      case 1
      then obtain q where "x # xs = r @ q" by (auto simp: startsWith_iff)
      then have "x # xs = [] @ r @ q" by simp
      then show ?thesis by blast
    next
      case 2
      then obtain p q where "xs = p @ r @ q" using Cons.IH by blast
      then have "x # xs = (x # p) @ r @ q" by simp
      then show ?thesis by blast
    qed
  next
    assume "\<exists>p q. x # xs = p @ r @ q"
    then obtain p q where pq: "x # xs = p @ r @ q" by blast
    show "String_includes (x # xs) r"
    proof (cases p)
      case Nil
      with pq have "startsWith (x # xs) r" by (auto simp: startsWith_iff)
      then show ?thesis by simp
    next
      case (Cons y ys)
      with pq have "xs = ys @ r @ q" by simp
      then have "String_includes xs r" using Cons.IH by blast
      then show ?thesis by simp
    qed
  qed
qed

lemma map_of_nth_distinct:
  "distinct (map fst t) \<Longrightarrow> i < length t \<Longrightarrow> map_of t (fst (t ! i)) = Some (snd (t ! i))"
  by (metis map_of_eq_Some_iff nth_mem prod.collapse)

lemma distinct_ROOM_RATES: "distinct (map fst ROOM_RATES)"
  by (simp add: ROOM_RATES_def)

lemma rate_lookup_nth:
  "i < length ROOM_RATES \<Longrightarrow> rate_lookup ROOM_RATES (fst (ROOM_RATES ! i)) = snd (ROOM_RATES ! i)"
  by (simp add: rate_lookup_def map_of_nth_distinct [OF distinct_ROOM_RATES])

lemma rate_lookup_standard: "rate_lookup ROOM_RATES ''standard'' = 150"
  by (simp add: rate_lookup_def ROOM_RATES_def)

lemma calculateStayCost_Some:
  assumes "getTime checkIn = Some s" and "getTime checkOut = Some e"
  shows "calculateStayCost getTime checkIn checkOut (JStr rt) =
           Some \<lparr>nights = or_one \<lceil>real_of_int \<bar>e - s\<bar> / 86400000\<rceil>,
                 rate = rate_lookup ROOM_RATES (room_key rt),
                 total = or_one \<lceil>real_of_int \<bar>e - s\<bar> / 86400000\<rceil> * rate_lookup ROOM_RATES (room_key rt)\<rparr>"
  using assms by (simp add: calculateStayCost_def room_key_def Let_def)

lemma room_key_first:
  assumes "i < length ROOM_RATES"
    and "\<exists>p q. toLowerCase rt = p @ fst (ROOM_RATES ! i) @ q"
    and "\<forall>j<i. \<not> (\<exists>p q. toLowerCase rt = p @ fst (ROOM_RATES ! j) @ q)"
  shows "room_key rt = fst (ROOM_RATES ! i)"
proof -
  let ?P = "\<lambda>r. String_includes (toLowerCase rt) r"
  have "find ?P (Object_keys ROOM_RATES) = Some (fst (ROOM_RATES ! i))"
    unfolding find_Some_iff Object_keys_def
    using assms by (intro exI [of _ i]) (auto simp: String_includes_iff)
  then show ?thesis by (simp add: room_key_def)
qed

lemma room_key_none:
  assumes "\<forall>k \<in> set (Object_keys ROOM_RATES). \<not> (\<exists>p q. toLowerCase rt = p @ k @ q)"
  shows "room_key rt = ''standard''"
proof -
  have "find (\<lambda>r. String_includes (toLowerCase rt) r) (Object_keys ROOM_RATES) = None"
    unfolding find_None_iff using assms by (auto simp: String_includes_iff)
  then show ?thesis by (simp add: room_key_def)
qed

lemma ceiling_nonneg: "0 \<le> \<lceil>real_of_int \<bar>d\<bar> / 86400000\<rceil>"
  by (simp add: ceiling_le_iff) 

lemma or_one_max: "0 \<le> n \<Longrightarrow> or_one n = max 1 n"
  by (auto simp: or_one_def)

lemma rate_key_in_table: "room_key rt \<in> set (Object_keys ROOM_RATES)"
proof (cases "find (\<lambda>r. String_includes (toLowerCase rt) r) (Object_keys ROOM_RATES)")
  case None
  then show ?thesis by (simp add: room_key_def Object_keys_def ROOM_RATES_def)
next
  case (Some k)
  then have "k \<in> set (Object_keys ROOM_RATES)" by (auto simp: find_Some_iff)
  with Some show ?thesis by (simp add: room_key_def)
qed

lemma sample_dates:
  "Date_getTime_sample (JStr ''2024-06-01'') = Some 1717200000000"
  "Date_getTime_sample (JStr ''2024-06-05'') = Some 1717545600000"
  "Date_getTime_sample (JStr ''not-a-date'') = None"
  by (simp_all add: Date_getTime_sample_def)

text \<open>
  Claim C7. For every room-type string and dates that parse: pricing succeeds, whatever
  the room-type text; if some key of the rate table occurs in the lower-cased room type
  as a substring, the rate is that of the first such key in the table's order; if none
  does, the rate is 150, the rate of \<^verbatim>\<open>standard\<close>.
\<close>

theorem room_rate_first_match:
  assumes "getTime checkIn = Some s" and "getTime checkOut = Some e"
  shows "\<exists>f. calculateStayCost getTime checkIn checkOut (JStr rt) = Some f \<and>
           (\<forall>i<length ROOM_RATES.
              (\<exists>p q. toLowerCase rt = p @ fst (ROOM_RATES ! i) @ q) \<and>
              (\<forall>j<i. \<not> (\<exists>p q. toLowerCase rt = p @ fst (ROOM_RATES ! j) @ q))
              \<longrightarrow> rate f = snd (ROOM_RATES ! i)) \<and>
           ((\<forall>k \<in> set (Object_keys ROOM_RATES). \<not> (\<exists>p q. toLowerCase rt = p @ k @ q))
              \<longrightarrow> rate f = 150)"
  unfolding calculateStayCost_Some [OF assms]
  by (auto simp: room_key_first rate_lookup_nth room_key_none rate_lookup_standard)

theorem room_rate_first_match_witness:
  "map_option rate (calculateStayCost Date_getTime_sample (JStr ''2024-06-01'')
      (JStr ''2024-06-05'') (JStr ''A nice DELUXE suite'')) = Some 250 \<and>
   map_option rate (calculateStayCost Date_getTime_sample (JStr ''2024-06-01'')
      (JStr ''2024-06-05'') (JStr ''penthouse'')) = Some 150"
proof -
  let ?rt = "''A nice DELUXE suite''"
  obtain f where f: "calculateStayCost Date_getTime_sample (JStr ''2024-06-01'')
        (JStr ''2024-06-05'') (JStr ?rt) = Some f"
    and first: "\<forall>i<length ROOM_RATES.
              (\<exists>p q. toLowerCase ?rt = p @ fst (ROOM_RATES ! i) @ q) \<and>
              (\<forall>j<i. \<not> (\<exists>p q. toLowerCase ?rt = p @ fst (ROOM_RATES ! j) @ q))
              \<longrightarrow> rate f = snd (ROOM_RATES ! i)"
    using room_rate_first_match [OF sample_dates(1) sample_dates(2), of ?rt] by blast
  have len: "2 < length ROOM_RATES" by (simp add: ROOM_RATES_def)
  have hit: "\<exists>p q. toLowerCase ?rt = p @ fst (ROOM_RATES ! 2) @ q"
    unfolding String_includes_iff [symmetric]
    by (simp add: ROOM_RATES_def toLowerCase_def toLowerCase_char_def)
  have miss: "\<forall>j<2. \<not> (\<exists>p q. toLowerCase ?rt = p @ fst (ROOM_RATES ! j) @ q)"
    unfolding String_includes_iff [symmetric]
    by (simp add: ROOM_RATES_def toLowerCase_def toLowerCase_char_def less_Suc_eq numeral_2_eq_2)
  have "rate f = snd (ROOM_RATES ! 2)" using first len hit miss by blast
  then have one: "rate f = 250" by (simp add: ROOM_RATES_def)
  let ?pt = "''penthouse''"
  obtain g where g: "calculateStayCost Date_getTime_sample (JStr ''2024-06-01'')
        (JStr ''2024-06-05'') (JStr ?pt) = Some g"
    and none: "(\<forall>k \<in> set (Object_keys ROOM_RATES). \<not> (\<exists>p q. toLowerCase ?pt = p @ k @ q))
              \<longrightarrow> rate g = 150"
    using room_rate_first_match [OF sample_dates(1) sample_dates(2), of ?pt] by blast
  have "\<forall>k \<in> set (Object_keys ROOM_RATES). \<not> (\<exists>p q. toLowerCase ?pt = p @ k @ q)"
    unfolding String_includes_iff [symmetric]
    by (simp add: ROOM_RATES_def Object_keys_def toLowerCase_def toLowerCase_char_def)
  then have two: "rate g = 150" using none by blast
  show ?thesis using f g one two by simp
qed

text \<open>
  Claim C6, as the code has it. For dates that both parse and are less than \<open>2^53\<close>
  milliseconds apart (beyond that the code's doubles round), the number of nights is
  \<open>max 1 \<lceil>|check_out - check_in| / 1 day\<rceil>\<close> and the total is nights times rate. A
  same-day booking prices as one night. A booking with inverted dates prices exactly as
  the same two dates in the right order, that is by the absolute difference, which is
  one night only when the dates are at most a day apart.
\<close>

theorem nights_ceiling_abs:
  assumes "getTime checkIn = Some s" and "getTime checkOut = Some e"
    and "\<bar>e - s\<bar> < 2 ^ 53"
  shows "\<exists>f. calculateStayCost getTime checkIn checkOut (JStr rt) = Some f \<and>
           nights f = max 1 \<lceil>real_of_int \<bar>e - s\<bar> / (1000 * 60 * 60 * 24)\<rceil> \<and>
           total f = nights f * rate f \<and>
           (e = s \<longrightarrow> nights f = 1) \<and>
           calculateStayCost getTime checkOut checkIn (JStr rt) = Some f"
proof -
  let ?n = "\<lceil>real_of_int \<bar>e - s\<bar> / 86400000\<rceil>"
  have n1: "or_one ?n = max 1 ?n"
    by (rule or_one_max [OF ceiling_nonneg])
  have day: "(1000 * 60 * 60 * 24 :: real) = 86400000" by simp
  have sym: "\<bar>s - e\<bar> = \<bar>e - s\<bar>" by (rule abs_minus_commute)
  have same: "e = s \<Longrightarrow> or_one ?n = 1" by (simp add: or_one_def)
  show ?thesis
    unfolding calculateStayCost_Some [OF assms(1) assms(2)]
      calculateStayCost_Some [OF assms(2) assms(1)] sym day
    using n1 same by (intro exI conjI impI) simp_all
qed

theorem nights_ceiling_abs_witness:
  "map_option nights (calculateStayCost Date_getTime_sample (JStr ''2024-06-01'')
      (JStr ''2024-06-05'') (JStr ''Suite'')) = Some 4 \<and>
   map_option nights (calculateStayCost Date_getTime_sample (JStr ''2024-06-01'')
      (JStr ''2024-06-01'') (JStr ''Suite'')) = Some 1"
proof -
  obtain f where f: "calculateStayCost Date_getTime_sample (JStr ''2024-06-01'')
        (JStr ''2024-06-05'') (JStr ''Suite'') = Some f"
    and n: "nights f = max 1 \<lceil>real_of_int \<bar>1717545600000 - 1717200000000\<bar> / (1000 * 60 * 60 * 24)\<rceil>"
    using nights_ceiling_abs [where getTime = Date_getTime_sample and checkIn = "JStr ''2024-06-01''"
        and checkOut = "JStr ''2024-06-05''" and s = 1717200000000 and e = 1717545600000
        and rt = "''Suite''"] sample_dates
    by force
  obtain g where g: "calculateStayCost Date_getTime_sample (JStr ''2024-06-01'')
        (JStr ''2024-06-01'') (JStr ''Suite'') = Some g"
    and m: "(1717200000000 :: int) = 1717200000000 \<longrightarrow> nights g = 1"
    using nights_ceiling_abs [where getTime = Date_getTime_sample and checkIn = "JStr ''2024-06-01''"
        and checkOut = "JStr ''2024-06-01''" and s = 1717200000000 and e = 1717200000000
        and rt = "''Suite''"] sample_dates
    by force
  have "nights f = 4" using n by simp
  moreover have "nights g = 1" using m by simp
  ultimately show ?thesis using f g by simp
qed

text \<open>
  Claim C6 as stated says that an inverted-date booking prices as exactly one night.
  Check-in on 2024-06-05 with check-out on 2024-06-01 prices as four nights.
\<close>

theorem inverted_dates_four_nights:
  "map_option nights (calculateStayCost Date_getTime_sample (JStr ''2024-06-05'')
      (JStr ''2024-06-01'') (JStr ''suite'')) = Some 4 \<and>
   map_option nights (calculateStayCost Date_getTime_sample (JStr ''2024-06-05'')
      (JStr ''2024-06-01'') (JStr ''suite'')) \<noteq> Some 1"
  by (simp add: calculateStayCost_Some [OF sample_dates(2) sample_dates(1)] or_one_def)

section \<open>The booking store: properties\<close>

lemma cancel_map_eq:
  "cancel_map code bs found =
     (map (\<lambda>b. if js_get b ''confirmation_code'' = code
                then b(''status'' \<mapsto> JStr ''cancelled'') else b) bs,
      found \<or> (\<exists>b\<in>set bs. js_get b ''confirmation_code'' = code))"
  by (induction bs arbitrary: found) auto

text \<open>
  Claim C10. \<^verbatim>\<open>cancelBooking(code)\<close> writes back the stored list with the status
  \<^verbatim>\<open>cancelled\<close> set on every booking whose \<^verbatim>\<open>confirmation_code\<close> is the code, whoever's
  email it carries, every other booking and every other field as it was, and returns
  true exactly when some stored booking has that code.
\<close>

theorem cancelBooking_all_matching:
  "cancelBooking code all =
     (\<exists>b\<in>set all. js_get b ''confirmation_code'' = code,
      map (\<lambda>b. if js_get b ''confirmation_code'' = code
                 then b(''status'' \<mapsto> JStr ''cancelled'') else b) all)"
  by (simp add: cancelBooking_def cancel_map_eq)

theorem cancelBooking_all_matching_witness:
  "cancelBooking (JStr ''OMNI-0042'') [booking_a, booking_c, booking_b] =
     (True, [booking_a(''status'' \<mapsto> JStr ''cancelled''), booking_c,
             booking_b(''status'' \<mapsto> JStr ''cancelled'')]) \<and>
   cancelBooking (JStr ''OMNI-9999'') [booking_a, booking_c, booking_b] =
     (False, [booking_a, booking_c, booking_b])"
  using cancelBooking_all_matching [of "JStr ''OMNI-0042''" "[booking_a, booking_c, booking_b]"]
    cancelBooking_all_matching [of "JStr ''OMNI-9999''" "[booking_a, booking_c, booking_b]"]
  by (simp add: js_get_def booking_a_def booking_b_def booking_c_def)

section \<open>Tool dispatch: properties\<close>

lemma handle_call_rich_toolResponses:
  "toolResponses (snd (handle_call_rich e call s)) = toolResponses s"
  by (simp add: handle_call_rich_def check_availability_rich_def finalize_booking_rich_def
      list_bookings_rich_def cancel_booking_rich_def Let_def split: prod.splits)

lemma dispatch_rich_toolResponses:
  "toolResponses (snd (dispatch_rich e calls acc s)) = toolResponses s"
proof (induction calls arbitrary: acc s)
  case Nil
  then show ?case by simp
next
  case (Cons call calls)
  then show ?case
    using handle_call_rich_toolResponses [of e call s] by (simp add: case_prod_beta)
qed

lemma dispatch_rich_ids:
  "ids_of_responses (fst (dispatch_rich e calls acc s)) = ids_of_responses acc @ ids_of_calls calls"
proof (induction calls arbitrary: acc s)
  case Nil
  then show ?case by (simp add: ids_of_calls_def)
next
  case (Cons call calls)
  then show ?case by (simp add: ids_of_calls_def ids_of_responses_def case_prod_beta)
qed

lemma toolCall_rich_sent:
  "toolResponses (toolCall_rich e calls s) = toolResponses s @ [fst (dispatch_rich e calls [] s)]"
  using dispatch_rich_toolResponses [of e calls "[]" s]
  by (simp add: toolCall_rich_def case_prod_beta)

lemma handle_call_reduced_toolResponses:
  "toolResponses (snd (handle_call_reduced e call s)) = toolResponses s"
  by (simp add: handle_call_reduced_def check_availability_reduced_def
      finalize_booking_reduced_def Let_def split: prod.splits)

lemma toolCall_reduced_sent:
  "\<exists>responses. toolResponses (toolCall_reduced e calls s) = toolResponses s @ map (\<lambda>r. [r]) responses \<and>
      ids_of_responses responses = ids_of_calls calls"
proof (induction calls arbitrary: s)
  case Nil
  show ?case by (rule exI [of _ "[]"]) (simp add: ids_of_calls_def ids_of_responses_def)
next
  case (Cons call calls)
  obtain result s' where h: "handle_call_reduced e call s = (result, s')" by fastforce
  let ?r = "\<lparr>resp_id = call_id call, resp_name = call_name call, resp_result = result\<rparr>"
  let ?s = "s'\<lparr>toolResponses := toolResponses s' @ [[?r]]\<rparr>"
  from Cons.IH [of ?s] obtain rs where
    rs: "toolResponses (toolCall_reduced e calls ?s) = toolResponses ?s @ map (\<lambda>r. [r]) rs"
    and ids: "ids_of_responses rs = ids_of_calls calls" by blast
  have "toolResponses s' = toolResponses s"
    using handle_call_reduced_toolResponses [of e call s] h by simp
  then have "toolResponses (toolCall_reduced e (call # calls) s) =
      toolResponses s @ map (\<lambda>r. [r]) (?r # rs)"
    using rs h by simp
  moreover have "ids_of_responses (?r # rs) = ids_of_calls (call # calls)"
    using ids by (simp add: ids_of_calls_def ids_of_responses_def)
  ultimately show ?case by blast
qed

lemma onmessage_rich_appends:
  "\<exists>later. toolResponses (onmessage_rich e now message s) = toolResponses s @ later"
proof -
  have a: "toolResponses (fst (audio_rich e now message s)) = toolResponses s"
    by (simp add: audio_rich_def enqueue_def Let_def split: option.splits)
  show ?thesis
    using a toolCall_rich_sent [of e _ "fst (audio_rich e now message s)"]
    by (auto simp: onmessage_rich_def case_prod_beta split: option.splits)
qed

lemma toolCall_rich_batch:
  "\<exists>responses.
      length responses = length calls \<and>
      ids_of_responses responses = ids_of_calls calls \<and>
      toolResponses (toolCall_rich e calls s) = toolResponses s @ [responses]"
proof -
  let ?rs = "fst (dispatch_rich e calls [] s)"
  have ids: "ids_of_responses ?rs = ids_of_calls calls"
    using dispatch_rich_ids [of e calls "[]" s] by (simp add: ids_of_responses_def)
  then have len: "length ?rs = length calls"
    by (metis ids_of_calls_def ids_of_responses_def length_map)
  show ?thesis using ids len toolCall_rich_sent [of e calls s] by blast
qed

text \<open>
  The loops themselves answer every call: a batch of \<open>k\<close> calls that reaches the tool
  block gets \<open>k\<close> results, the \<open>i\<close>-th with the \<^verbatim>\<open>id\<close> and \<^verbatim>\<open>name\<close> of the \<open>i\<close>-th
  call, sent as one batch by the richer variant and one by one by the reduced variant.
\<close>

lemma toolCall_reduced_batch:
  "\<exists>responses.
      length responses = length calls \<and>
      ids_of_responses responses = ids_of_calls calls \<and>
      toolResponses (toolCall_reduced e calls s) = toolResponses s @ map (\<lambda>r. [r]) responses"
  using toolCall_reduced_sent [of e calls s]
  by (metis ids_of_calls_def ids_of_responses_def length_map)

lemma onmessage_rich_resume_same:
  assumes "inlineData message = Some base64Audio" and "base64Audio \<noteq> []"
    and "outputAudioContext s"
  shows "onmessage_rich e now message s = onmessage_rich_resume e now message s"
  using assms
  by (simp add: onmessage_rich_def onmessage_rich_resume_def audio_rich_def Let_def
      split: option.splits)

lemma live_app_eval:
  "outputAudioContext live_app" "toolResponses live_app = []" "omni_bookings live_app = []"
  "scheduledSources live_app = []" "nextStartTime live_app = 0"
  by (simp_all add: live_app_def startAudio_done_def onopen_def connectToGemini_def
      initial_app_def)

text \<open>
  Claim C1 asks that every inbound batch of \<open>k\<close> tool calls gets exactly \<open>k\<close> results,
  sent back before the tool calls of the next message are dispatched. A message that
  brings three calls together with audio that does not decode gets no result at all,
  in either variant: the rejected \<^verbatim>\<open>await\<close> ends the handler before the tool block.
\<close>

theorem tool_batch_dropped_when_decode_rejects:
  "toolCall bad_audio_message = Some sample_calls \<and>
   length sample_calls = 3 \<and>
   decodeAudioData sample_env ''bad'' = None \<and>
   toolResponses live_app = [] \<and>
   toolResponses (onmessage_rich sample_env 0 bad_audio_message live_app) = [] \<and>
   toolResponses (onmessage_reduced sample_env 0 bad_audio_message live_app) = []"
  using live_app_eval
  by (simp add: bad_audio_message_def sample_calls_def sample_env_def onmessage_rich_def
      onmessage_reduced_def audio_rich_def audio_reduced_def)

text \<open>
  The order in which batches are answered is not kept either when the decoding takes
  its time. The first message brings audio and the call \<^verbatim>\<open>m1\<close>; while its audio is
  being decoded the second message comes in with the call \<^verbatim>\<open>m2\<close> and is handled to
  its end; then the handler of the first message goes on. The call \<^verbatim>\<open>m2\<close> is
  dispatched and answered before \<^verbatim>\<open>m1\<close>.
\<close>

lemma later_batch_answered_first:
  "map ids_of_responses
     (toolResponses (onmessage_rich_resume sample_env 0 first_message
        (onmessage_rich sample_env 0 second_message live_app))) =
   [[(''m2'', ''list_bookings'')], [(''m1'', ''list_bookings'')]]"
  using live_app_eval
  by (simp add: first_message_def second_message_def sample_env_def onmessage_rich_def
      onmessage_rich_resume_def audio_rich_def toolCall_rich_def handle_call_rich_def
      list_bookings_rich_def getBookings_def enqueue_def ids_of_responses_def Let_def)

lemma calculateStayCost_bad_date:
  "getTime checkIn = None \<or> getTime checkOut = None \<Longrightarrow>
     calculateStayCost getTime checkIn checkOut roomType = None"
  by (auto simp: calculateStayCost_def split: option.splits)

lemma unpriceable_call_None:
  "calculateStayCost (Date_getTime sample_env) (js_get (call_args unpriceable_call) ''check_in_date'')
     (js_get (call_args unpriceable_call) ''check_out_date'')
     (js_get (call_args unpriceable_call) ''room_type'') = None"
  by (rule calculateStayCost_bad_date)
    (simp add: sample_env_def unpriceable_call_def js_get_def Date_getTime_sample_def)

text \<open>
  Claim C3, as the code has it. When pricing gives \<^verbatim>\<open>null\<close> for the arguments of a
  \<^verbatim>\<open>check_availability\<close> call, the result has status \<^verbatim>\<open>unavailable\<close> and a message,
  and the draft does change: the call's arguments are merged into
  \<^verbatim>\<open>currentBooking\<close> with \<^verbatim>\<open>price_per_night\<close>, \<^verbatim>\<open>total_cost\<close> and
  \<^verbatim>\<open>total_nights\<close> set to 0. Nothing else of the state changes.
\<close>

theorem check_availability_unpriceable:
  assumes "call_name call = ''check_availability''"
    and "calculateStayCost (Date_getTime e) (js_get (call_args call) ''check_in_date'')
           (js_get (call_args call) ''check_out_date'') (js_get (call_args call) ''room_type'') = None"
  shows "handle_call_rich e call s =
     (PObj [''status'' \<mapsto> JStr ''unavailable'', ''message'' \<mapsto> JStr ''Invalid dates or room type.''],
      s\<lparr>currentBooking := currentBooking s ++
           (call_args call)(''price_per_night'' \<mapsto> JNum 0, ''total_cost'' \<mapsto> JNum 0,
                            ''total_nights'' \<mapsto> JNum 0)\<rparr>)"
  using assms by (simp add: handle_call_rich_def check_availability_rich_def)

theorem check_availability_unpriceable_witness:
  "result_prop (fst (handle_call_rich sample_env unpriceable_call initial_app)) ''status'' =
     JStr ''unavailable'' \<and>
   result_prop (fst (handle_call_rich sample_env unpriceable_call initial_app)) ''message'' =
     JStr ''Invalid dates or room type.'' \<and>
   js_get (currentBooking (snd (handle_call_rich sample_env unpriceable_call initial_app)))
     ''check_in_date'' = JStr ''not-a-date'' \<and>
   js_get (currentBooking (snd (handle_call_rich sample_env unpriceable_call initial_app)))
     ''total_nights'' = JNum 0"
proof -
  have n: "call_name unpriceable_call = ''check_availability''"
    by (simp add: unpriceable_call_def)
  show ?thesis
    unfolding check_availability_unpriceable [OF n unpriceable_call_None]
    by (simp add: result_prop_def js_get_def unpriceable_call_def)
qed

text \<open>
  Claim C3 as stated says that the draft is left unchanged. A call with the check-in
  date \<^verbatim>\<open>not-a-date\<close> on an empty draft leaves a draft with \<^verbatim>\<open>total_cost\<close> 0.
\<close>

theorem unpriceable_changes_draft:
  "calculateStayCost (Date_getTime sample_env) (JStr ''not-a-date'') (JStr ''2024-06-05'')
     (JStr ''suite'') = None \<and>
   js_get (currentBooking initial_app) ''total_cost'' = JUndefined \<and>
   js_get (currentBooking (snd (handle_call_rich sample_env unpriceable_call initial_app)))
     ''total_cost'' = JNum 0 \<and>
   currentBooking (snd (handle_call_rich sample_env unpriceable_call initial_app)) \<noteq>
     currentBooking initial_app"
proof -
  have a: "calculateStayCost (Date_getTime sample_env) (JStr ''not-a-date'') (JStr ''2024-06-05'')
     (JStr ''suite'') = None"
    by (rule calculateStayCost_bad_date) (simp add: sample_env_def Date_getTime_sample_def)
  have b: "js_get (currentBooking initial_app) ''total_cost'' = JUndefined"
    by (simp add: initial_app_def js_get_def)
  have c: "js_get (currentBooking (snd (handle_call_rich sample_env unpriceable_call initial_app)))
     ''total_cost'' = JNum 0"
    using unpriceable_call_None
    by (simp add: handle_call_rich_def check_availability_rich_def js_get_def unpriceable_call_def)
  have "currentBooking (snd (handle_call_rich sample_env unpriceable_call initial_app)) \<noteq>
     currentBooking initial_app"
    using b c by auto
  with a b c show ?thesis by blast
qed

text \<open>
  Claim C5, as the code has it. A call whose name is none of the four tool names is not
  dropped: it gets a response with its \<^verbatim>\<open>id\<close> and \<^verbatim>\<open>name\<close>. The result in that
  response is the empty object, and the state is as it was.
\<close>

theorem unknown_tool_empty_result:
  assumes "call_name call \<notin> {''check_availability'', ''finalize_booking'', ''list_bookings'',
                               ''cancel_booking''}"
  shows "handle_call_rich e call s = (PObj Map.empty, s) \<and>
         dispatch_rich e (call # calls) responses s =
           dispatch_rich e calls
             (responses @ [\<lparr>resp_id = call_id call, resp_name = call_name call,
                            resp_result = PObj Map.empty\<rparr>]) s \<and>
         toolResponses (toolCall_rich e [call] s) =
           toolResponses s @ [[\<lparr>resp_id = call_id call, resp_name = call_name call,
                                 resp_result = PObj Map.empty\<rparr>]]"
  using assms by (simp add: handle_call_rich_def toolCall_rich_def)

theorem unknown_tool_empty_result_witness:
  "toolResponses (toolCall_rich sample_env [unknown_call] initial_app) =
     [[\<lparr>resp_id = ''c2'', resp_name = ''get_weather'', resp_result = PObj Map.empty\<rparr>]]"
proof -
  have "call_name unknown_call \<notin> {''check_availability'', ''finalize_booking'',
          ''list_bookings'', ''cancel_booking''}"
    by (simp add: unknown_call_def)
  from unknown_tool_empty_result [OF this, of sample_env initial_app]
  show ?thesis by (simp add: unknown_call_def initial_app_def)
qed

text \<open>
  Claim C5 as stated says that the result is a structured error. The response to a call
  named \<^verbatim>\<open>get_weather\<close> has neither a \<^verbatim>\<open>status\<close> nor a \<^verbatim>\<open>message\<close>.
\<close>

theorem unknown_tool_no_error:
  "map (\<lambda>r. (resp_id r, result_prop (resp_result r) ''status'',
              result_prop (resp_result r) ''message''))
     (concat (toolResponses (toolCall_rich sample_env [unknown_call] initial_app))) =
   [(''c2'', JUndefined, JUndefined)]"
  by (simp add: toolCall_rich_def handle_call_rich_def unknown_call_def initial_app_def
      result_prop_def js_get_def)

section \<open>Audio playback: properties\<close>

lemma enqueue_all_plan:
  "enqueue_all chunks s =
     s\<lparr>scheduledSources := scheduledSources s @ plan (nextStartTime s) chunks,
       nextStartTime := clock_after (nextStartTime s) chunks\<rparr>"
proof (induction chunks arbitrary: s)
  case Nil
  then show ?case by simp
next
  case (Cons c chunks)
  obtain now dur where c: "c = (now, dur)" by (cases c)
  show ?case unfolding c by (simp add: Cons.IH enqueue_def Let_def)
qed

lemma length_plan: "length (plan t chunks) = length chunks"
  by (induction t chunks rule: plan.induct) auto

lemma duration_plan: "map duration (plan t chunks) = map snd chunks"
  by (induction t chunks rule: plan.induct) auto

lemma plan_lower:
  "\<forall>c \<in> set chunks. 0 \<le> snd c \<Longrightarrow> x \<in> set (plan t chunks) \<Longrightarrow> t \<le> startAt x"
proof (induction t chunks rule: plan.induct)
  case (1 t)
  then show ?case by simp
next
  case (2 t now dur rest)
  then show ?case by fastforce
qed

lemma plan_no_overlap:
  "\<forall>c \<in> set chunks. 0 \<le> snd c \<Longrightarrow>
     sorted_wrt (\<lambda>a b. startAt a + duration a \<le> startAt b) (plan t chunks)"
proof (induction t chunks rule: plan.induct)
  case (1 t)
  then show ?case by simp
next
  case (2 t now dur rest)
  then show ?case using plan_lower [of rest _ "max t now + dur"] by auto
qed

lemma plan_durations_nonneg:
  "\<forall>c \<in> set chunks. 0 \<le> snd c \<Longrightarrow> x \<in> set (plan t chunks) \<Longrightarrow> 0 \<le> duration x"
  by (induction t chunks rule: plan.induct) auto

lemma plan_monotone:
  assumes "\<forall>c \<in> set chunks. 0 \<le> snd c"
  shows "sorted_wrt (\<lambda>a b. startAt a \<le> startAt b) (plan t chunks)"
proof (rule sorted_wrt_mono_rel [OF _ plan_no_overlap [OF assms, of t]])
  fix a b
  assume "a \<in> set (plan t chunks)" and "startAt a + duration a \<le> startAt b"
  then show "startAt a \<le> startAt b"
    using plan_durations_nonneg [OF assms, of a t] by simp
qed

lemma plan_next_start:
  "Suc i < length chunks \<Longrightarrow>
     startAt (plan t chunks ! Suc i) =
       max (startAt (plan t chunks ! i) + duration (plan t chunks ! i)) (fst (chunks ! Suc i))"
proof (induction t chunks arbitrary: i rule: plan.induct)
  case (1 t)
  then show ?case by simp
next
  case (2 t now dur rest)
  show ?case
  proof (cases i)
    case 0
    with 2 obtain now' dur' rest' where "rest = (now', dur') # rest'"
      by (cases rest) auto
    with 0 show ?thesis by simp
  next
    case (Suc k)
    with 2 show ?thesis by simp
  qed
qed

lemma plan_end:
  assumes "\<forall>i. Suc i < length chunks \<longrightarrow>
            startAt (plan t chunks ! Suc i) = startAt (plan t chunks ! i) + duration (plan t chunks ! i)"
    and "k < length chunks"
  shows "startAt (plan t chunks ! k) + duration (plan t chunks ! k) =
           startAt (plan t chunks ! 0) + sum_list (take (Suc k) (map snd chunks))"
  using assms(2)
proof (induction k)
  case 0
  then have "duration (plan t chunks ! 0) = map snd chunks ! 0"
    by (metis duration_plan length_plan nth_map)
  with 0 show ?case by (simp add: take_Suc_conv_app_nth)
next
  case (Suc k)
  then have k: "k < length chunks" by simp
  have d: "duration (plan t chunks ! Suc k) = map snd chunks ! Suc k"
    using Suc.prems by (metis duration_plan length_plan nth_map)
  have "take (Suc (Suc k)) (map snd chunks) = take (Suc k) (map snd chunks) @ [map snd chunks ! Suc k]"
    using Suc.prems by (simp add: take_Suc_conv_app_nth)
  then show ?case using Suc.IH [OF k] assms(1) Suc.prems d by simp
qed

lemma clock_after_last:
  "chunks \<noteq> [] \<Longrightarrow>
     clock_after t chunks = startAt (last (plan t chunks)) + duration (last (plan t chunks))"
proof (induction t chunks rule: plan.induct)
  case (1 t)
  then show ?case by simp
next
  case (2 t now dur rest)
  then show ?case by (cases rest) auto
qed

text \<open>
  Claim C4, as the code has it. Chunks with durations \<open>d1..dN\<close>, none negative, enqueued
  one after the other with no interruption get \<open>N\<close> intervals that never overlap and
  whose start times never decrease. When every chunk after the first is enqueued no
  later than the scheduled end of the one before it, the intervals are contiguous and
  their span is \<open>d1 + ... + dN\<close>, which is also where the playback clock then stands.
\<close>

theorem gapless_schedule:
  assumes "\<forall>c \<in> set chunks. 0 \<le> snd c"
  shows "\<exists>new.
    scheduledSources (enqueue_all chunks s) = scheduledSources s @ new \<and>
    length new = length chunks \<and>
    map duration new = map snd chunks \<and>
    (\<forall>i j. i < j \<and> j < length new \<longrightarrow> startAt (new ! i) + duration (new ! i) \<le> startAt (new ! j)) \<and>
    (\<forall>i j. i < j \<and> j < length new \<longrightarrow> startAt (new ! i) \<le> startAt (new ! j)) \<and>
    ((\<forall>i. Suc i < length new \<longrightarrow> fst (chunks ! Suc i) \<le> startAt (new ! i) + duration (new ! i)) \<longrightarrow>
       (\<forall>i. Suc i < length new \<longrightarrow> startAt (new ! Suc i) = startAt (new ! i) + duration (new ! i)) \<and>
       (chunks \<noteq> [] \<longrightarrow>
          startAt (last new) + duration (last new) - startAt (hd new) = sum_list (map snd chunks) \<and>
          nextStartTime (enqueue_all chunks s) = startAt (last new) + duration (last new)))"
proof -
  let ?new = "plan (nextStartTime s) chunks"
  have a: "scheduledSources (enqueue_all chunks s) = scheduledSources s @ ?new"
    by (simp add: enqueue_all_plan)
  have b: "length ?new = length chunks" by (rule length_plan)
  have c: "map duration ?new = map snd chunks" by (rule duration_plan)
  have d: "\<forall>i j. i < j \<and> j < length ?new \<longrightarrow>
             startAt (?new ! i) + duration (?new ! i) \<le> startAt (?new ! j)"
    using plan_no_overlap [OF assms, of "nextStartTime s"] by (simp add: sorted_wrt_iff_nth_less)
  have e: "\<forall>i j. i < j \<and> j < length ?new \<longrightarrow> startAt (?new ! i) \<le> startAt (?new ! j)"
    using plan_monotone [OF assms, of "nextStartTime s"] by (simp add: sorted_wrt_iff_nth_less)
  have f: "(\<forall>i. Suc i < length ?new \<longrightarrow> startAt (?new ! Suc i) = startAt (?new ! i) + duration (?new ! i)) \<and>
       (chunks \<noteq> [] \<longrightarrow>
          startAt (last ?new) + duration (last ?new) - startAt (hd ?new) = sum_list (map snd chunks) \<and>
          nextStartTime (enqueue_all chunks s) = startAt (last ?new) + duration (last ?new))"
    if h: "\<forall>i. Suc i < length ?new \<longrightarrow> fst (chunks ! Suc i) \<le> startAt (?new ! i) + duration (?new ! i)"
  proof -
    have contiguous: "\<forall>i. Suc i < length chunks \<longrightarrow>
        startAt (?new ! Suc i) = startAt (?new ! i) + duration (?new ! i)"
      using h plan_next_start [of _ chunks "nextStartTime s"] by (simp add: b)
    have span: "startAt (last ?new) + duration (last ?new) - startAt (hd ?new) = sum_list (map snd chunks)"
      if ne: "chunks \<noteq> []"
    proof -
      have k: "length chunks - 1 < length chunks" using ne by simp
      have l: "last ?new = ?new ! (length chunks - 1)"
        using ne b by (metis last_conv_nth length_0_conv)
      have h0: "hd ?new = ?new ! 0" using ne b by (metis hd_conv_nth length_0_conv)
      have "take (Suc (length chunks - 1)) (map snd chunks) = map snd chunks" using ne by simp
      then show ?thesis using plan_end [OF contiguous k] l h0 by simp
    qed
    have clock: "nextStartTime (enqueue_all chunks s) = startAt (last ?new) + duration (last ?new)"
      if ne: "chunks \<noteq> []"
      using clock_after_last [OF ne] by (simp add: enqueue_all_plan)
    show ?thesis using contiguous span clock b by simp
  qed
  show ?thesis using a b c d e f by blast
qed

lemma timely_sources:
  "scheduledSources (enqueue_all timely_chunks initial_app) =
     [\<lparr>startAt = 0, duration = 1\<rparr>, \<lparr>startAt = 1, duration = 2\<rparr>, \<lparr>startAt = 3, duration = 1\<rparr>]"
  by (simp add: timely_chunks_def initial_app_def enqueue_def)

theorem gapless_schedule_witness:
  "startAt (last (scheduledSources (enqueue_all timely_chunks initial_app))) +
   duration (last (scheduledSources (enqueue_all timely_chunks initial_app))) -
   startAt (hd (scheduledSources (enqueue_all timely_chunks initial_app))) = 1 + 2 + 1"
proof -
  let ?X = "scheduledSources (enqueue_all timely_chunks initial_app)"
  have nonneg: "\<forall>c \<in> set timely_chunks. 0 \<le> snd c" by (simp add: timely_chunks_def)
  obtain new where new: "?X = scheduledSources initial_app @ new"
    and span: "(\<forall>i. Suc i < length new \<longrightarrow>
                  fst (timely_chunks ! Suc i) \<le> startAt (new ! i) + duration (new ! i)) \<longrightarrow>
       (\<forall>i. Suc i < length new \<longrightarrow> startAt (new ! Suc i) = startAt (new ! i) + duration (new ! i)) \<and>
       (timely_chunks \<noteq> [] \<longrightarrow>
          startAt (last new) + duration (last new) - startAt (hd new) = sum_list (map snd timely_chunks) \<and>
          nextStartTime (enqueue_all timely_chunks initial_app) = startAt (last new) + duration (last new))"
    using gapless_schedule [OF nonneg, of initial_app] by blast
  have eq: "new = ?X" using new by (simp add: initial_app_def)
  have arrive: "\<forall>i. Suc i < length new \<longrightarrow>
                  fst (timely_chunks ! Suc i) \<le> startAt (new ! i) + duration (new ! i)"
    unfolding eq timely_sources
    by (simp add: timely_chunks_def less_Suc_eq numeral_3_eq_3 all_conj_distrib)
  have "timely_chunks \<noteq> []" by (simp add: timely_chunks_def)
  with span arrive
  have "startAt (last new) + duration (last new) - startAt (hd new) = sum_list (map snd timely_chunks)"
    by blast
  then show ?thesis unfolding eq by (simp add: timely_chunks_def)
qed

text \<open>
  Claim C4 as stated holds for every sequence of chunks. A chunk of one second enqueued at
  time 0 and a second one enqueued at time 5 are scheduled at 0 and at 5: there is a gap
  of four seconds, and the span is 6, not 2.
\<close>

theorem late_chunk_leaves_gap:
  "scheduledSources (enqueue_all late_chunks initial_app) =
     [\<lparr>startAt = 0, duration = 1\<rparr>, \<lparr>startAt = 5, duration = 1\<rparr>] \<and>
   sum_list (map snd late_chunks) = 2 \<and>
   startAt (last (scheduledSources (enqueue_all late_chunks initial_app))) +
   duration (last (scheduledSources (enqueue_all late_chunks initial_app))) -
   startAt (hd (scheduledSources (enqueue_all late_chunks initial_app))) = 6"
  by (simp add: late_chunks_def initial_app_def enqueue_def)

section \<open>Interruption\<close>

lemma onmessage_rich_never_reads_interrupted:
  "onmessage_rich e now (message\<lparr>interrupted := b\<rparr>) s = onmessage_rich e now message s"
  by (simp add: onmessage_rich_def audio_rich_def case_prod_beta)

text \<open>
  Claim C2 asks that a message carrying the interruption signal stops every scheduled
  chunk, empties the scheduled set and resets the playback clock to zero. The richer
  variant's handler never reads the signal: with one chunk scheduled, after such a
  message the chunk is still in the set, nothing has been stopped and the clock stands
  at 1.
\<close>

theorem richer_ignores_interruption:
  "scheduledSources playing_app = [\<lparr>startAt = 0, duration = 1\<rparr>] \<and>
   interrupted interrupt_message \<and>
   scheduledSources (onmessage_rich sample_env (1 / 2) interrupt_message playing_app) =
     [\<lparr>startAt = 0, duration = 1\<rparr>] \<and>
   stopped (onmessage_rich sample_env (1 / 2) interrupt_message playing_app) = [] \<and>
   nextStartTime (onmessage_rich sample_env (1 / 2) interrupt_message playing_app) = 1"
  by (simp add: playing_app_def interrupt_message_def onmessage_rich_def audio_rich_def
      enqueue_def startAudio_done_def onopen_def connectToGemini_def initial_app_def)

text \<open>
  The reduced variant does what claim C2 asks: every source that was scheduled is
  stopped, and what the set holds afterwards is at most the chunk that the same message
  brings, scheduled from the reset clock.
\<close>

lemma handle_call_reduced_playback:
  "scheduledSources (snd (handle_call_reduced e call s)) = scheduledSources s \<and>
   stopped (snd (handle_call_reduced e call s)) = stopped s \<and>
   nextStartTime (snd (handle_call_reduced e call s)) = nextStartTime s"
  by (simp add: handle_call_reduced_def check_availability_reduced_def
      finalize_booking_reduced_def Let_def case_prod_beta)

lemma toolCall_reduced_playback:
  "scheduledSources (toolCall_reduced e calls s) = scheduledSources s \<and>
   stopped (toolCall_reduced e calls s) = stopped s \<and>
   nextStartTime (toolCall_reduced e calls s) = nextStartTime s"
proof (induction calls arbitrary: s)
  case Nil
  then show ?case by simp
next
  case (Cons call calls)
  then show ?case using handle_call_reduced_playback [of e call s]
    by (simp add: case_prod_beta)
qed

lemma reduced_interrupts:
  assumes "interrupted message"
  shows "stopped (onmessage_reduced e now message s) = stopped s @ scheduledSources s"
    and "inlineData message = None \<Longrightarrow>
           scheduledSources (onmessage_reduced e now message s) = [] \<and>
           nextStartTime (onmessage_reduced e now message s) = 0"
    and "inlineData message = Some b \<Longrightarrow> b \<noteq> [] \<Longrightarrow> decodeAudioData e b = Some dur \<Longrightarrow>
           scheduledSources (onmessage_reduced e now message s) =
             [\<lparr>startAt = max 0 now, duration = dur\<rparr>] \<and>
           nextStartTime (onmessage_reduced e now message s) = max 0 now + dur"
  using assms
  by (auto simp: onmessage_reduced_def audio_reduced_def interrupt_def enqueue_def Let_def
      toolCall_reduced_playback case_prod_beta split: option.splits)

section \<open>Mute\<close>

text \<open>
  Claim C9, as the code has it. In the richer variant muting disables the audio track
  and changes nothing of the connection state. While muted, every frame still updates
  the smoothed level, with no energy counted, so the level decays by the factor 0.8,
  and every frame is still encoded and sent. After unmuting, the next frame counts with
  its energy and is sent. In the reduced variant no frame is sent while the mute ref is
  set, the level is the frame's energy unsmoothed, and the frame after unmuting is sent.
\<close>

theorem muted_frames_still_forwarded:
  assumes "mediaStream s = Some True" and "\<not> isMuted s" and "inputAudioContext s"
  shows "isMuted (toggleMute s) \<and>
         connectionState (toggleMute s) = connectionState s \<and>
         audioLevel (onaudioprocess_rich e frame (toggleMute s)) = audioLevel s * 0.8 \<and>
         realtimeInput (onaudioprocess_rich e frame (toggleMute s)) =
           realtimeInput s @ [createPcmBlob e frame] \<and>
         isMuted (onaudioprocess_rich e frame (toggleMute s)) \<and>
         \<not> isMuted (toggleMute (toggleMute s)) \<and>
         audioLevel (onaudioprocess_rich e frame (toggleMute (toggleMute s))) =
           audioLevel s * 0.8 + rms frame * 2 \<and>
         realtimeInput (onaudioprocess_rich e frame (toggleMute (toggleMute s))) =
           realtimeInput s @ [createPcmBlob e frame] \<and>
         (isMuted r \<and> isMutedRef r \<longrightarrow>
            realtimeInput (onaudioprocess_reduced e frame r) = realtimeInput r \<and>
            audioLevel (onaudioprocess_reduced e frame r) = rms frame \<and>
            realtimeInput (onaudioprocess_reduced e frame (setIsMuted_reduced r)) =
              realtimeInput r @ [createPcmBlob e frame])"
  using assms
  by (simp add: toggleMute_def onaudioprocess_rich_def onaudioprocess_reduced_def
      setIsMuted_reduced_def Let_def)

theorem muted_frames_still_forwarded_witness:
  "realtimeInput (onaudioprocess_rich sample_env [1 / 2, 1 / 2] muted_app) = [''pcm''] \<and>
   audioLevel (onaudioprocess_rich sample_env [1 / 2, 1 / 2] muted_app) = 0"
proof -
  let ?live = "startAudio_done (onopen 0 (connectToGemini True True False initial_app))"
  have a: "mediaStream ?live = Some True" "\<not> isMuted ?live" "inputAudioContext ?live"
    "realtimeInput ?live = []" "audioLevel ?live = 0"
    by (simp_all add: startAudio_done_def onopen_def connectToGemini_def initial_app_def)
  show ?thesis
    using muted_frames_still_forwarded [OF a(1) a(2) a(3), of sample_env "[1 / 2, 1 / 2]"] a(4) a(5)
    by (simp add: muted_app_def sample_env_def)
qed

lemma muted_app_eval:
  "isMuted muted_app" "mediaStream muted_app = Some False" "inputAudioContext muted_app"
  "realtimeInput muted_app = []" "audioLevel muted_app = 0"
  by (simp_all add: muted_app_def toggleMute_def startAudio_done_def onopen_def
      connectToGemini_def initial_app_def)

text \<open>
  Claim C9 as stated says that no frame is encoded or forwarded while the session is
  muted. In the richer variant a frame that arrives while muted is sent.
\<close>

theorem muted_frame_is_sent:
  "isMuted muted_app \<and> realtimeInput muted_app = [] \<and>
   realtimeInput (onaudioprocess_rich sample_env [1 / 2, 1 / 2] muted_app) = [''pcm'']"
  using muted_app_eval by (simp add: onaudioprocess_rich_def sample_env_def)

section \<open>The connection state machine: properties\<close>

lemma stopAudio_fields [simp]:
  "connectionState (stopAudio s) = connectionState s"
  "sessions (stopAudio s) = sessions s"
  by (simp_all add: stopAudio_def)

lemma into_connected:
  assumes "enabled s ev" and "connectionState (step s ev) = CONNECTED"
    and "connectionState s \<noteq> CONNECTED"
  shows "\<exists>i. ev = RemoteOpen i \<and> i < length (sessions s) \<and> sessions s ! i = Pending"
  using assms
  by (cases ev)
    (auto simp: connectToGemini_def endCall_def toggleMute_def onclose_def onerror_def
      startAudio_done_def startAudio_failed_def Let_def split: if_splits option.splits)

lemma pending_origin:
  assumes "Pending \<in> set (sessions (step s ev))"
  shows "Pending \<in> set (sessions s) \<or> connectionState (step s ev) = CONNECTING"
proof (cases ev)
  case (ClickConnect u k t)
  with assms show ?thesis
    by (auto simp: connectToGemini_def Let_def split: if_splits)
next
  case ClickEndCall
  with assms show ?thesis by (auto simp: endCall_def split: if_splits)
next
  case ClickMute
  with assms show ?thesis by (auto simp: toggleMute_def Let_def split: option.splits)
next
  case (RemoteOpen i)
  with assms have "Pending \<in> set ((sessions s)[i := Opened])" by (simp add: onopen_def)
  then have "Pending \<in> insert Opened (set (sessions s))"
    using set_update_subset_insert by fastforce
  then show ?thesis by simp
next
  case (RemoteClose i)
  with assms have "Pending \<in> set ((sessions s)[i := Closed])" by (simp add: onclose_def)
  then have "Pending \<in> insert Closed (set (sessions s))"
    using set_update_subset_insert by fastforce
  then show ?thesis by simp
next
  case (RemoteError i)
  with assms have "Pending \<in> set ((sessions s)[i := Failed])" by (simp add: onerror_def)
  then have "Pending \<in> insert Failed (set (sessions s))"
    using set_update_subset_insert by fastforce
  then show ?thesis by simp
next
  case AudioReady
  with assms show ?thesis by (simp add: startAudio_done_def)
next
  case AudioInitFailed
  with assms show ?thesis by (simp add: startAudio_failed_def)
qed

lemma new_session_origin:
  assumes "length (sessions s) < length (sessions (step s ev))"
  shows "(\<exists>t. ev = ClickConnect True True t) \<and> connectionState (step s ev) = CONNECTING"
  using assms
  by (cases ev)
    (auto simp: connectToGemini_def endCall_def toggleMute_def onopen_def onclose_def onerror_def
      startAudio_done_def startAudio_failed_def Let_def split: if_splits option.splits)

lemma run_steps:
  "run s evs = Some tr \<Longrightarrow>
     length tr = Suc (length evs) \<and> tr ! 0 = s \<and>
     (\<forall>k<length evs. enabled (tr ! k) (evs ! k) \<and> tr ! Suc k = step (tr ! k) (evs ! k))"
proof (induction evs arbitrary: s tr)
  case Nil
  then show ?case by auto
next
  case (Cons ev evs)
  from Cons.prems obtain tr' where en: "enabled s ev"
    and tr': "run (step s ev) evs = Some tr'" and tr: "tr = s # tr'"
    by (auto split: if_splits option.splits)
  from Cons.IH [OF tr'] have len: "length tr' = Suc (length evs)" and hd: "tr' ! 0 = step s ev"
    and st: "\<forall>k<length evs. enabled (tr' ! k) (evs ! k) \<and> tr' ! Suc k = step (tr' ! k) (evs ! k)"
    by auto
  have "enabled (tr ! k) ((ev # evs) ! k) \<and> tr ! Suc k = step (tr ! k) ((ev # evs) ! k)"
    if "k < length (ev # evs)" for k
  proof (cases k)
    case 0
    then show ?thesis using en hd tr by simp
  next
    case (Suc j)
    then show ?thesis using st that tr by simp
  qed
  then show ?case using len tr by simp
qed

lemma connecting_seen:
  assumes r: "run s0 evs = Some tr" and c0: "connectionState s0 \<noteq> CONNECTED"
    and p0: "Pending \<notin> set (sessions s0)"
  shows "k < length tr \<Longrightarrow>
     Pending \<in> set (sessions (tr ! k)) \<or> connectionState (tr ! k) = CONNECTED \<Longrightarrow>
     \<exists>j\<le>k. connectionState (tr ! j) = CONNECTING"
proof (induction k)
  case 0
  then show ?case using run_steps [OF r] c0 p0 by simp
next
  case (Suc k)
  from run_steps [OF r] Suc.prems(1)
  have en: "enabled (tr ! k) (evs ! k)" and st: "tr ! Suc k = step (tr ! k) (evs ! k)"
    by auto
  have k: "k < length tr" using Suc.prems(1) by simp
  consider (a) "connectionState (tr ! Suc k) = CONNECTING"
    | (b) "Pending \<in> set (sessions (tr ! k))"
    | (c) "connectionState (tr ! k) = CONNECTED"
    using Suc.prems(2) pending_origin [of "tr ! k" "evs ! k"]
      into_connected [OF en, unfolded st [symmetric]] st by (metis nth_mem)
  then show ?case
  proof cases
    case a
    then show ?thesis by blast
  next
    case b
    then obtain j where "j \<le> k" "connectionState (tr ! j) = CONNECTING"
      using Suc.IH [OF k] by blast
    then show ?thesis using le_SucI by blast
  next
    case c
    then obtain j where "j \<le> k" "connectionState (tr ! j) = CONNECTING"
      using Suc.IH [OF k] by blast
    then show ?thesis using le_SucI by blast
  qed
qed

text \<open>
  What holds of the state machine in every execution that starts in a state that is not
  \<open>CONNECTED\<close> and has no pending session: whenever the state is \<open>CONNECTED\<close>, it was
  \<open>CONNECTING\<close> at some earlier point; the state becomes \<open>CONNECTED\<close> only through the
  \<^verbatim>\<open>onopen\<close> callback of a session that is still pending; and a session comes into
  being only through the connect button, which sets \<open>CONNECTING\<close>.
\<close>

lemma connected_only_by_open:
  assumes "run s0 evs = Some tr" and "connectionState s0 \<noteq> CONNECTED"
    and "Pending \<notin> set (sessions s0)"
  shows "(\<forall>k<length tr. connectionState (tr ! k) = CONNECTED \<longrightarrow>
            (\<exists>j<k. connectionState (tr ! j) = CONNECTING)) \<and>
         (\<forall>k<length evs. connectionState (tr ! Suc k) = CONNECTED \<and>
                connectionState (tr ! k) \<noteq> CONNECTED \<longrightarrow>
            (\<exists>i. evs ! k = RemoteOpen i \<and> i < length (sessions (tr ! k)) \<and>
                 sessions (tr ! k) ! i = Pending)) \<and>
         (\<forall>k<length evs. length (sessions (tr ! k)) < length (sessions (tr ! Suc k)) \<longrightarrow>
            (\<exists>t. evs ! k = ClickConnect True True t) \<and>
            connectionState (tr ! Suc k) = CONNECTING)"
proof (intro conjI allI impI)
  fix k
  assume "k < length tr" and c: "connectionState (tr ! k) = CONNECTED"
  then obtain j where j: "j \<le> k" "connectionState (tr ! j) = CONNECTING"
    using connecting_seen [OF assms] by blast
  then have "j \<noteq> k" using c by auto
  then show "\<exists>j<k. connectionState (tr ! j) = CONNECTING" using j by (metis le_neq_implies_less)
next
  fix k
  assume k: "k < length evs"
    and "connectionState (tr ! Suc k) = CONNECTED \<and> connectionState (tr ! k) \<noteq> CONNECTED"
  then show "\<exists>i. evs ! k = RemoteOpen i \<and> i < length (sessions (tr ! k)) \<and>
                 sessions (tr ! k) ! i = Pending"
    using run_steps [OF assms(1)] into_connected [of "tr ! k" "evs ! k"] by auto
next
  fix k
  assume k: "k < length evs"
    and g: "length (sessions (tr ! k)) < length (sessions (tr ! Suc k))"
  then show "\<exists>t. evs ! k = ClickConnect True True t"
    using run_steps [OF assms(1)] new_session_origin [of "tr ! k" "evs ! k"] by auto
  from k g show "connectionState (tr ! Suc k) = CONNECTING"
    using run_steps [OF assms(1)] new_session_origin [of "tr ! k" "evs ! k"] by auto
qed

lemma stale_open_run:
  "map_option (map connectionState) (run initial_app stale_open_trace) =
     Some [DISCONNECTED, CONNECTING, DISCONNECTED, CONNECTING, ERROR, CONNECTED]"
  by (simp add: stale_open_trace_def initial_app_def connectToGemini_def endCall_def
      onerror_def onopen_def stopAudio_def Let_def)

text \<open>
  Claim C8 asks that the state is never \<open>CONNECTED\<close> without having been
  \<open>CONNECTING\<close> first, and that from \<open>ERROR\<close> it never goes back to \<open>CONNECTED\<close> without
  the user. The user connects, ends the call while the first session is still pending
  (the richer \<^verbatim>\<open>endCall\<close> does not close it), and connects again; the second session
  fails, so the state is \<open>ERROR\<close>; then the first session opens, and its unguarded
  \<^verbatim>\<open>onopen\<close> sets \<open>CONNECTED\<close>, with no action of the user in between.
\<close>

theorem error_then_connected_by_stale_open:
  "map_option (map connectionState) (run initial_app stale_open_trace) =
     Some [DISCONNECTED, CONNECTING, DISCONNECTED, CONNECTING, ERROR, CONNECTED] \<and>
   stale_open_trace ! 4 = RemoteOpen 0 \<and> \<not> user_event (RemoteOpen 0)"
  using stale_open_run by (simp add: stale_open_trace_def user_event_def)

end
